theory Spec2Isabelle
  imports Complex_Main "HOL-Library.Log_Nat" "HOL-Library.Multiset"
begin

section \<open>Errors and Python slices\<close>

text \<open>
  The exceptions that the modelled code can raise, as values. Every function of the
  source that can raise returns \<open>error + 'a\<close>, with \<open>Inl\<close> for the exception.
  \<open>OverflowError\<close> is raised when an integer is too large to convert to a float.
  \<open>StructError\<close> is \<open>struct.error\<close>. \<open>ValidationError\<close> is the error class that
  the specification names; no statement of \<^verbatim>\<open>imageblocks.py\<close> raises it.
\<close>

datatype error =
    ValueError | TypeError | IndexError | AttributeError | ZeroDivisionError
  | OverflowError | StructError | ValidationError

definition ebind :: "error + 'a \<Rightarrow> ('a \<Rightarrow> error + 'b) \<Rightarrow> error + 'b" where
  "ebind m f = (case m of Inl e \<Rightarrow> Inl e | Inr v \<Rightarrow> f v)"

text \<open>
  A list comprehension or a loop over a list whose body may raise: the elements are
  evaluated from left to right and the first error ends the evaluation.
\<close>

fun emap :: "('a \<Rightarrow> error + 'b) \<Rightarrow> 'a list \<Rightarrow> error + 'b list" where
  "emap f [] = Inr []"
| "emap f (x # xs) = ebind (f x) (\<lambda>y. ebind (emap f xs) (\<lambda>ys. Inr (y # ys)))"

text \<open>Python's \<open>slice(start, stop, step)\<close>; a field that is \<open>None\<close> in Python is \<open>None\<close> here.\<close>

datatype slice = Slice (start: "int option") (stop: "int option") (step: "int option")

abbreviation slice_None :: slice where
  "slice_None \<equiv> Slice None None None"

section \<open>Slice generation\<close>

text \<open>
  The inner loop of \<^verbatim>\<open>__generateSlices\<close> (\<^verbatim>\<open>for blockidx in xrange(nsplits)\<close>):
  the first argument counts the iterations left; \<open>st\<close> and \<open>blockrem\<close> are the two
  loop variables.
\<close>

fun dimslices_loop :: "nat \<Rightarrow> int \<Rightarrow> int \<Rightarrow> int \<Rightarrow> int \<Rightarrow> slice list" where
  "dimslices_loop 0 blocksize dimsize st blockrem = []"
| "dimslices_loop (Suc n) blocksize dimsize st blockrem =
     (let en = st + blocksize;
          en' = (if blockrem \<noteq> 0 then en + 1 else en);
          blockrem' = (if blockrem \<noteq> 0 then blockrem - 1 else blockrem)
      in Slice (Some st) (Some (min en' dimsize)) (Some 1)
           # dimslices_loop n blocksize dimsize en' blockrem')"

text \<open>
  One pass of the outer loop: Python 2 \<open>/\<close> on integers is floor division and \<open>%\<close> takes
  the sign of the divisor, as \<open>div\<close> and \<open>mod\<close> on \<open>int\<close> do; both raise on a zero divisor.
\<close>

definition dimslices :: "int \<Rightarrow> int \<Rightarrow> error + slice list" where
  "dimslices nsplits dimsize =
     (if nsplits = 0 then Inl ZeroDivisionError
      else Inr (dimslices_loop (nat nsplits) (dimsize div nsplits) dimsize 0
                  (dimsize mod nsplits)))"

fun generateSlices :: "int list \<Rightarrow> int list \<Rightarrow> error + slice list list" where
  "generateSlices (nsplits # splitsPerDim) (dimsize # dims) =
     ebind (dimslices nsplits dimsize) (\<lambda>ds.
     ebind (generateSlices splitsPerDim dims) (\<lambda>rest. Inr (ds # rest)))"
| "generateSlices _ _ = Inr []"




section \<open>The sequence of block memory sizes\<close>

text \<open>
  \<^verbatim>\<open>_BlockMemoryAsSequence.indtosub\<close>. The loop runs over \<open>dims[::-1]\<close>; the
  function below takes the reversed dimensions and returns the split counts in that
  (reversed) order; a \<^verbatim>\<open>break\<close> leaves the remaining entries at their initial 1.
\<close>

fun indtosub_loop :: "int list \<Rightarrow> int \<Rightarrow> int list" where
  "indtosub_loop [] idx = []"
| "indtosub_loop (d # ds) idx =
     (let delta = min (d - 1) idx;
          s = (if delta > 0 then 1 + delta else 1);
          idx' = (if delta > 0 then idx - delta else idx)
      in if idx' \<le> 0 then s # map (\<lambda>_. 1) ds else s # indtosub_loop ds idx')"

definition indtosub :: "int list \<Rightarrow> int \<Rightarrow> int list" where
  "indtosub dims idx = rev (indtosub_loop (rev dims) idx)"

text \<open>\<^verbatim>\<open>_BlockMemoryAsSequence.__len__\<close>.\<close>

definition memseq_len :: "int list \<Rightarrow> int" where
  "memseq_len dims = sum_list (map (\<lambda>d. d - 1) dims) + 1"


section \<open>Python floats\<close>

text \<open>
  A Python float is an IEEE 754 binary64 number: a finite value (a rational \<open>m * 2^p\<close>
  with \<open>\<bar>m\<bar> < 2^53\<close> and \<open>- 1074 \<le> p\<close>, of magnitude below \<open>2^1024\<close>), an infinity or a
  NaN. The sign of a zero is not modelled: no comparison of the code can tell \<open>- 0.0\<close>
  from \<open>0.0\<close>.

  \<open>round_half_even\<close> rounds a rational to the nearest integer, a tie to the even one.
  \<open>flog2 x\<close> is \<open>\<lfloor>log\<^sub>2 x\<rfloor>\<close> for a positive rational, from the bit lengths of its numerator
  and denominator. Around \<open>x\<close> the binary64 numbers are the multiples of \<open>2 ^ ulp_exp x\<close>:
  53 significant bits, and the fixed spacing \<open>2^-1074\<close> of the subnormal range.
  \<open>round_double x\<close> is the multiple nearest to \<open>x\<close>, ties to even: the result of every
  correctly rounded operation whose exact result is \<open>x\<close>, unless it overflows.
\<close>

datatype double = Fin rat | PInf | NInf | NaN

definition round_half_even :: "rat \<Rightarrow> int" where
  "round_half_even x =
     (let f = \<lfloor>x\<rfloor>; r = x - of_int f
      in if r < 1 / 2 then f else if 1 / 2 < r then f + 1 else if even f then f else f + 1)"

definition flog2 :: "rat \<Rightarrow> int" where
  "flog2 x =
     (case quotient_of x of (n, d) \<Rightarrow>
        (let c = bitlen n - bitlen d
         in if of_int d * 2 powi c \<le> (of_int n :: rat) then c else c - 1))"

definition ulp_exp :: "rat \<Rightarrow> int" where
  "ulp_exp x = max (flog2 \<bar>x\<bar> - 52) (- 1074)"

definition round_double :: "rat \<Rightarrow> rat" where
  "round_double x =
     (if x = 0 then 0
      else of_int (round_half_even (x / 2 powi ulp_exp x)) * 2 powi ulp_exp x)"

text \<open>
  The result of an arithmetic operation with exact result \<open>x\<close>: a rounded magnitude of
  \<open>2^1024\<close> or more is an infinity (float arithmetic does not raise in Python).
\<close>

definition to_double :: "rat \<Rightarrow> double" where
  "to_double x =
     (let y = round_double x
      in if 2 powi 1024 \<le> y then PInf else if y \<le> - (2 powi 1024) then NInf else Fin y)"

text \<open>
  \<open>float(i)\<close> of an integer, and the conversion of an integer operand of a float
  operation: rounded to nearest, \<open>OverflowError\<close> when the result is out of range. The
  result is the value of the finite float.
\<close>

definition float_of_int :: "int \<Rightarrow> error + rat" where
  "float_of_int i =
     (let y = round_double (of_int i)
      in if 2 powi 1024 \<le> \<bar>y\<bar> then Inl OverflowError else Inr y)"

text \<open>
  \<open>a / float(b)\<close> for integers \<open>a\<close> and \<open>b\<close>: \<open>float(b)\<close> is evaluated first, then the
  division converts \<open>a\<close>, then a zero divisor raises \<open>ZeroDivisionError\<close>. The magnitude
  of a non-zero integer float is at least 1, so the quotient cannot overflow.
\<close>

definition int_div_float :: "int \<Rightarrow> int \<Rightarrow> error + double" where
  "int_div_float a b =
     ebind (float_of_int b) (\<lambda>fb.
     ebind (float_of_int a) (\<lambda>fa.
       if fb = 0 then Inl ZeroDivisionError else Inr (to_double (fa / fb))))"

text \<open>Multiplication and \<open><\<close> of floats.\<close>

fun dmul :: "double \<Rightarrow> double \<Rightarrow> double" where
  "dmul (Fin a) (Fin b) = to_double (a * b)"
| "dmul NaN y = NaN"
| "dmul x NaN = NaN"
| "dmul PInf (Fin b) = (if 0 < b then PInf else if b < 0 then NInf else NaN)"
| "dmul NInf (Fin b) = (if 0 < b then NInf else if b < 0 then PInf else NaN)"
| "dmul (Fin a) PInf = (if 0 < a then PInf else if a < 0 then NInf else NaN)"
| "dmul (Fin a) NInf = (if 0 < a then NInf else if a < 0 then PInf else NaN)"
| "dmul PInf PInf = PInf"
| "dmul PInf NInf = NInf"
| "dmul NInf PInf = NInf"
| "dmul NInf NInf = PInf"

fun dless :: "double \<Rightarrow> double \<Rightarrow> bool" where
  "dless (Fin a) (Fin b) = (a < b)"
| "dless NaN y = False"
| "dless x NaN = False"
| "dless PInf y = False"
| "dless x NInf = False"
| "dless NInf y = True"
| "dless (Fin a) PInf = True"

text \<open>
  The order of the floats that are not NaN, and the floats that are at least 1; both
  are used in the proofs only.
\<close>

fun dle :: "double \<Rightarrow> double \<Rightarrow> bool" where
  "dle (Fin a) (Fin b) = (a \<le> b)"
| "dle NaN y = False"
| "dle x NaN = False"
| "dle NInf y = True"
| "dle x PInf = True"
| "dle PInf y = False"
| "dle (Fin a) NInf = False"



section \<open>The block size estimator\<close>

text \<open>
  \<^verbatim>\<open>_BlockMemoryAsSequence.blockMemoryForSplits\<close>: the list comprehension evaluates
  \<open>d / float(s)\<close> in order, each a float division of two converted integers (a zero
  split count raises \<open>ZeroDivisionError\<close>, an integer beyond the float range
  \<open>OverflowError\<close>), then \<open>reduce(mul, sz)\<close> folds the float multiplication from the
  left with no initial value, which raises \<open>TypeError\<close> on an empty list. Every
  division and every multiplication rounds.
\<close>

definition blockMemoryForSplits :: "int list \<Rightarrow> int list \<Rightarrow> error + double" where
  "blockMemoryForSplits dims sub =
     ebind (emap (\<lambda>(d, s). int_div_float d s) (zip dims sub)) (\<lambda>sz.
       case sz of
         [] \<Rightarrow> Inl TypeError
       | x # xs \<Rightarrow> Inr (foldl dmul x xs))"

text \<open>\<^verbatim>\<open>_BlockMemoryAsReversedSequence._reverseIdx\<close>.\<close>

definition reverseIdx :: "int list \<Rightarrow> int \<Rightarrow> error + int" where
  "reverseIdx dims idx =
     (let l = memseq_len dims
      in if idx < 0 \<or> idx \<ge> l then Inl IndexError else Inr (l - (idx + 1)))"

text \<open>\<^verbatim>\<open>_BlockMemoryAsReversedSequence.indtosub\<close>.\<close>

definition rev_indtosub :: "int list \<Rightarrow> int \<Rightarrow> error + int list" where
  "rev_indtosub dims idx = ebind (reverseIdx dims idx) (\<lambda>i. Inr (indtosub dims i))"

text \<open>
  \<^verbatim>\<open>__getitem__\<close> on the reversed sequence: the inherited method calls \<open>self.indtosub\<close>,
  which is the overriding, index-reversing one.
\<close>

definition memseq_getitem :: "int list \<Rightarrow> int \<Rightarrow> error + double" where
  "memseq_getitem dims item = ebind (rev_indtosub dims item) (blockMemoryForSplits dims)"

text \<open>
  \<open>bisect.bisect_left(a, x)\<close> of the standard library, with \<open>lo = 0\<close> and
  \<open>hi = len(a)\<close>: the loop \<^verbatim>\<open>while lo < hi: mid = (lo+hi)//2; if a[mid] < x: lo = mid+1
  else: hi = mid\<close>. The sequence is given by its item function; the items and \<open>x\<close> are
  floats.
\<close>

function bisect_loop :: "(int \<Rightarrow> error + double) \<Rightarrow> double \<Rightarrow> int \<Rightarrow> int \<Rightarrow> error + int" where
  "bisect_loop a x lo hi =
     (if lo < hi then
        (let mid = (lo + hi) div 2
         in case a mid of
              Inl e \<Rightarrow> Inl e
            | Inr v \<Rightarrow> if dless v x then bisect_loop a x (mid + 1) hi else bisect_loop a x lo mid)
      else Inr lo)"
  by pat_completeness auto
termination
  by (relation "measure (\<lambda>(a, x, lo, hi). nat (hi - lo))") auto

declare bisect_loop.simps [simp del]

definition bisect_left :: "(int \<Rightarrow> error + double) \<Rightarrow> int \<Rightarrow> double \<Rightarrow> error + int" where
  "bisect_left a len x = bisect_loop a x 0 len"

text \<open>
  The strategy object: \<open>_splitsPerDim\<close>, \<open>_slices\<close> and \<open>_npartitions\<close> of the class, and
  the \<open>dims\<close> and \<open>nimages\<close> that \<^verbatim>\<open>setImages\<close> of the base class records.
\<close>

record strategy =
  s_splitsPerDim :: "int list"
  s_slices :: "slice list list option"
  s_npartitions :: int
  s_dims :: "int list option"
  s_nimages :: "int option"

text \<open>\<^verbatim>\<open>__normalizeSplits\<close>.\<close>

definition normalizeSplits :: "int list \<Rightarrow> error + int list" where
  "normalizeSplits splitsPerDim =
     (if \<exists>nsplits \<in> set splitsPerDim. nsplits \<le> 0 then Inl ValueError else Inr splitsPerDim)"

text \<open>
  \<^verbatim>\<open>__init__\<close>: \<open>numSparkPartitions\<close> is \<open>None\<close> or an integer; \<open>None\<close> and 0 are falsy and
  give the product of the split counts.
\<close>

definition new_strategy :: "int list \<Rightarrow> int option \<Rightarrow> error + strategy" where
  "new_strategy splitsPerDim numSparkPartitions =
     ebind (normalizeSplits splitsPerDim) (\<lambda>splits.
       Inr \<lparr> s_splitsPerDim = splits, s_slices = None,
             s_npartitions = (case numSparkPartitions of
                                None \<Rightarrow> foldl (*) 1 splits
                              | Some n \<Rightarrow> if n = 0 then foldl (*) 1 splits else n),
             s_dims = None, s_nimages = None \<rparr>)"

text \<open>
  The requested size is an integer or a string; a string goes through
  \<^verbatim>\<open>thunder.utils.common.parseMemoryString\<close>, which is not part of the modelled file and
  is a parameter here. \<open>itemsize\<close> stands for \<^verbatim>\<open>dtype(datatype).itemsize\<close>. The
  threshold \<open>blockSize / float(minseriessize)\<close> is a float division of two converted
  integers.
\<close>

datatype blocksize = SizeInt int | SizeStr string

definition generateFromBlockSize ::
  "(string \<Rightarrow> error + int) \<Rightarrow> blocksize \<Rightarrow> int list \<Rightarrow> int \<Rightarrow> int \<Rightarrow> int option \<Rightarrow> error + strategy"
where
  "generateFromBlockSize parseMemoryString blockSize dims nimages itemsize numSparkPartitions =
     (let minseriessize = nimages * itemsize
      in ebind (case blockSize of SizeInt n \<Rightarrow> Inr n | SizeStr s \<Rightarrow> parseMemoryString s)
           (\<lambda>blockSize'.
         ebind (int_div_float blockSize' minseriessize) (\<lambda>x.
         ebind (bisect_left (memseq_getitem dims) (memseq_len dims) x) (\<lambda>tmpidx.
         ebind (rev_indtosub dims (if tmpidx = memseq_len dims then tmpidx - 1 else tmpidx))
           (\<lambda>splitsPerDim. new_strategy splitsPerDim numSparkPartitions)))))"



section \<open>Labels of binary series files\<close>

text \<open>
  Python's string formatting, for the two conversions that
  \<^verbatim>\<open>getBinarySeriesNameForKey\<close> uses.

  \<open>str_nat\<close> is the decimal representation of a natural number. \<open>fmt_0d w\<close> is
  \<^verbatim>\<open>"%0wd"\<close> on an integer: sign, then zeros up to the width \<open>w\<close>, then the digits.
\<close>

definition digit_char :: "nat \<Rightarrow> char" where
  "digit_char d = ''0123456789'' ! d"

fun str_nat :: "nat \<Rightarrow> string" where
  "str_nat n = (if n < 10 then [digit_char n] else str_nat (n div 10) @ [digit_char (n mod 10)])"

declare str_nat.simps [simp del]

definition zero_fill :: "nat \<Rightarrow> string \<Rightarrow> string \<Rightarrow> string" where
  "zero_fill w sign body = sign @ replicate (w - length sign - length body) (CHR ''0'') @ body"

definition fmt_0d :: "nat \<Rightarrow> int \<Rightarrow> string" where
  "fmt_0d w n = zero_fill w (if n < 0 then ''-'' else []) (str_nat (nat \<bar>n\<bar>))"

text \<open>
  \<^verbatim>\<open>"%g"\<close> on an integer, which Python converts to a float first: six significant
  digits. Up to six digits the output is the integer itself (fixed notation, no trailing
  zeros to remove); from seven digits on it is the exponent notation, the mantissa
  rounded half-to-even to six digits, its trailing zeros removed, and an exponent of at
  least two digits. The conversion to a float is exact below \<open>2^53\<close>; larger integers
  are treated here as if it were exact too.
\<close>

definition strip_zeros :: "string \<Rightarrow> string" where
  "strip_zeros s = rev (dropWhile (\<lambda>c. c = CHR ''0'') (rev s))"

definition fmt_g_abs :: "nat \<Rightarrow> string" where
  "fmt_g_abs m =
     (let ds = str_nat m; n = length ds
      in if n \<le> 6 then ds
         else
           (let q0 = m div 10 ^ (n - 6);
                r = m mod 10 ^ (n - 6);
                half = 5 * 10 ^ (n - 7);
                q1 = (if r > half \<or> (r = half \<and> odd q0) then q0 + 1 else q0);
                q = (if q1 = 10 ^ 6 then 10 ^ 5 else q1);
                e = (if q1 = 10 ^ 6 then n else n - 1);
                md = str_nat q;
                frac = strip_zeros (tl md)
            in hd md # (if frac = [] then [] else CHR ''.'' # frac) @ ''e+'' @
               zero_fill 2 [] (str_nat e)))"

definition fmt_05g :: "int \<Rightarrow> string" where
  "fmt_05g k = zero_fill 5 (if k < 0 then ''-'' else []) (fmt_g_abs (nat \<bar>k\<bar>))"

text \<open>\<open>sep.join(xs)\<close>.\<close>

fun join :: "string \<Rightarrow> string list \<Rightarrow> string" where
  "join sep [] = []"
| "join sep [x] = x"
| "join sep (x # y # ys) = x @ sep @ join sep (y # ys)"

text \<open>
  \<^verbatim>\<open>getBinarySeriesNameForKey\<close>. An entry of the key is an integer or \<open>None\<close> (the
  \<open>start\<close> of a slice can be \<open>None\<close>), and \<^verbatim>\<open>%g\<close> of \<open>None\<close> raises \<open>TypeError\<close>; the
  list comprehension formats the entries in order.
\<close>

fun format_keys :: "nat \<Rightarrow> int option list \<Rightarrow> error + string list" where
  "format_keys ki [] = Inr []"
| "format_keys ki (None # ks) = Inl TypeError"
| "format_keys ki (Some k # ks) =
     ebind (format_keys (Suc ki) ks) (\<lambda>rest.
       Inr ((''key'' @ fmt_0d 2 (int ki) @ ''_'' @ fmt_05g k) # rest))"

definition getBinarySeriesNameForKey :: "int option list \<Rightarrow> error + string" where
  "getBinarySeriesNameForKey blockKey =
     ebind (format_keys 0 blockKey) (\<lambda>parts. Inr (join ''-'' (rev parts)))"

text \<open>
  The label as the specification words it: \<open>zero_padded w n\<close> writes \<open>n\<close> with exactly \<open>w\<close>
  decimal digits, the digit of \<open>10^j\<close> at position \<open>j\<close> from the right; a component is
  \<open>key\<close>, the two-digit index, an underscore and the five-digit coordinate.
\<close>

definition zero_padded :: "nat \<Rightarrow> nat \<Rightarrow> string" where
  "zero_padded w n = map (\<lambda>j. digit_char (n div 10 ^ j mod 10)) (rev [0..<w])"

definition label_component :: "nat \<Rightarrow> nat \<Rightarrow> string" where
  "label_component i k = ''key'' @ zero_padded 2 i @ ''_'' @ zero_padded 5 k"


section \<open>Dense arrays\<close>

text \<open>
  A numpy array is its shape and its elements in row-major (C) order, the order in
  which \<open>tostring()\<close> writes them. All blocks of one pipeline have the same element type
  \<open>'a\<close> (the \<open>dtype\<close>), so an assignment never converts.

  \<open>indices sh\<close> lists the multi-indices of an array of shape \<open>sh\<close> in row-major order and
  \<open>ravel sh idx\<close> is the position of \<open>idx\<close> in that list; \<open>elem_at a idx\<close> reads one element
  and \<open>tabulate sh f\<close> builds the array whose element at \<open>idx\<close> is \<open>f idx\<close>.
\<close>

datatype 'a ndarray = NDArray (shape: "nat list") (elems: "'a list")

definition ndim :: "'a ndarray \<Rightarrow> nat" where
  "ndim a = length (shape a)"

definition indices :: "nat list \<Rightarrow> nat list list" where
  "indices sh = product_lists (map (\<lambda>n. [0..<n]) sh)"

fun ravel :: "nat list \<Rightarrow> nat list \<Rightarrow> nat" where
  "ravel (n # ns) (i # idx) = i * prod_list ns + ravel ns idx"
| "ravel _ _ = 0"

definition elem_at :: "'a ndarray \<Rightarrow> nat list \<Rightarrow> 'a" where
  "elem_at a idx = elems a ! ravel (shape a) idx"

definition tabulate :: "nat list \<Rightarrow> (nat list \<Rightarrow> 'a) \<Rightarrow> 'a ndarray" where
  "tabulate sh f = NDArray sh (map f (indices sh))"

definition valid_index :: "nat list \<Rightarrow> nat list \<Rightarrow> bool" where
  "valid_index sh idx \<longleftrightarrow> list_all2 (<) idx sh"

definition wf_array :: "'a ndarray \<Rightarrow> bool" where
  "wf_array a \<longleftrightarrow> length (elems a) = prod_list (shape a)"

text \<open>
  \<open>slice.indices(n)\<close>: the start, stop and step of a slice on an axis of length \<open>n\<close>,
  as CPython computes them (negative bounds count from the end, then both are clipped);
  a zero step raises \<open>ValueError\<close>.
\<close>

definition clip_bound :: "int \<Rightarrow> int \<Rightarrow> int \<Rightarrow> int" where
  "clip_bound n stp b =
     (let b' = (if b < 0 then b + n else b)
      in if b' < 0 then (if stp < 0 then - 1 else 0)
         else if b' \<ge> n then (if stp < 0 then n - 1 else n)
         else b')"

definition slice_indices :: "slice \<Rightarrow> nat \<Rightarrow> error + (int \<times> int \<times> int)" where
  "slice_indices sl n =
     (let stp = (case step sl of None \<Rightarrow> 1 | Some s \<Rightarrow> s)
      in if stp = 0 then Inl ValueError
         else Inr ((case start sl of
                      None \<Rightarrow> (if stp < 0 then int n - 1 else 0)
                    | Some b \<Rightarrow> clip_bound (int n) stp b),
                   (case stop sl of
                      None \<Rightarrow> (if stp < 0 then - 1 else int n)
                    | Some b \<Rightarrow> clip_bound (int n) stp b),
                   stp))"

text \<open>
  The number of values and the values of the arithmetic progression from \<open>lo\<close> towards
  \<open>hi\<close> in steps of a non-zero \<open>stp\<close>: the positions of a slice and the values of an
  \<open>xrange\<close>.
\<close>

definition range_len :: "int \<Rightarrow> int \<Rightarrow> int \<Rightarrow> int" where
  "range_len lo hi stp =
     max 0 (if stp > 0 then (hi - lo + stp - 1) div stp else (lo - hi - stp - 1) div (- stp))"

definition py_range :: "int \<Rightarrow> int \<Rightarrow> int \<Rightarrow> int list" where
  "py_range lo hi stp = map (\<lambda>k. lo + int k * stp) [0..<nat (range_len lo hi stp)]"

text \<open>The positions that a slice selects on an axis of length \<open>n\<close>, in the order of the slice.\<close>

definition slice_select :: "slice \<Rightarrow> nat \<Rightarrow> error + nat list" where
  "slice_select sl n =
     ebind (slice_indices sl n) (\<lambda>(lo, hi, stp). Inr (map nat (py_range lo hi stp)))"

text \<open>
  Indexing with a sequence of slices (basic indexing): the slices apply to the leading
  axes and the remaining axes are taken whole; more slices than axes raise \<open>IndexError\<close>.
  \<open>select_axes\<close> gives, for every axis, the positions selected on it.
\<close>

definition select_axes :: "slice list \<Rightarrow> nat list \<Rightarrow> error + nat list list" where
  "select_axes sls sh =
     (if length sls > length sh then Inl IndexError
      else ebind (emap (\<lambda>(sl, n). slice_select sl n) (zip sls sh)) (\<lambda>sels.
             Inr (sels @ map (\<lambda>n. [0..<n]) (drop (length sls) sh))))"

definition getitem :: "slice list \<Rightarrow> 'a ndarray \<Rightarrow> error + 'a ndarray" where
  "getitem sls a =
     ebind (select_axes sls (shape a)) (\<lambda>sels.
       Inr (tabulate (map length sels) (\<lambda>idx. elem_at a (map2 (\<lambda>sel i. sel ! i) sels idx))))"

text \<open>
  Assignment to a region: the value is broadcast to the shape of the region. Leading
  axes of length 1 that the value has beyond the rank of the region are dropped, then
  the shapes are aligned at the right and every extent of the value is that of the
  region or 1; otherwise \<open>ValueError\<close>. \<open>broadcast_index\<close> maps an index of the region to
  the index of the value that is stored there.
\<close>

definition broadcastable :: "nat list \<Rightarrow> nat list \<Rightarrow> bool" where
  "broadcastable vsh rsh \<longleftrightarrow>
     (\<forall>n \<in> set (take (length vsh - length rsh) vsh). n = 1) \<and>
     list_all2 (\<lambda>v r. v = r \<or> v = 1) (drop (length vsh - length rsh) vsh)
       (drop (length rsh - length vsh) rsh)"

definition broadcast_index :: "nat list \<Rightarrow> nat list \<Rightarrow> nat list \<Rightarrow> nat list" where
  "broadcast_index vsh rsh idx =
     replicate (length vsh - length rsh) 0 @
     map2 (\<lambda>v i. if v = 1 then 0 else i) (drop (length vsh - length rsh) vsh)
       (drop (length rsh - length vsh) idx)"

definition first_index :: "'a list \<Rightarrow> 'a \<Rightarrow> nat" where
  "first_index xs x = length (takeWhile (\<lambda>y. y \<noteq> x) xs)"

definition setitem :: "slice list \<Rightarrow> 'a ndarray \<Rightarrow> 'a ndarray \<Rightarrow> error + 'a ndarray" where
  "setitem sls a v =
     ebind (select_axes sls (shape a)) (\<lambda>sels.
       if \<not> broadcastable (shape v) (map length sels) then Inl ValueError
       else Inr (tabulate (shape a) (\<lambda>idx.
              if list_all2 (\<lambda>i sel. i \<in> set sel) idx sels
              then elem_at v (broadcast_index (shape v) (map length sels)
                           (map2 (\<lambda>sel i. first_index sel i) sels idx))
              else elem_at a idx)))"

text \<open>\<open>zeros(shape, dtype)\<close>, \<open>expand_dims(a, axis=0)\<close> and \<open>a.squeeze()\<close>.\<close>

definition zeros :: "int list \<Rightarrow> error + ('a::zero) ndarray" where
  "zeros newshape =
     (if \<exists>n \<in> set newshape. n < 0 then Inl ValueError
      else Inr (tabulate (map nat newshape) (\<lambda>_. 0)))"

definition expand_dims :: "'a ndarray \<Rightarrow> 'a ndarray" where
  "expand_dims a = NDArray (1 # shape a) (elems a)"

definition squeeze :: "'a ndarray \<Rightarrow> 'a ndarray" where
  "squeeze a = NDArray (filter (\<lambda>n. n \<noteq> 1) (shape a)) (elems a)"


section \<open>Block keys, extraction, assembly and series\<close>

text \<open>\<^verbatim>\<open>ImageBlocksGroupingKey\<close>: the shape before slicing and the slices of the block.\<close>

record grouping_key =
  origshape :: "int list"
  origslices :: "slice list"

text \<open>Python's \<open>xs[i]\<close> for a non-negative constant index.\<close>

definition py_index :: "'a list \<Rightarrow> nat \<Rightarrow> error + 'a" where
  "py_index xs i = (if i < length xs then Inr (xs ! i) else Inl IndexError)"

definition temporalKey :: "grouping_key \<Rightarrow> error + int option" where
  "temporalKey key = ebind (py_index (origslices key) 0) (\<lambda>sl. Inr (start sl))"

definition spatialKey :: "grouping_key \<Rightarrow> int option list" where
  "spatialKey key = map start (tl (origslices key))"

text \<open>\<^verbatim>\<open>setImages\<close>, with \<^verbatim>\<open>__validateSplitsForImage\<close>.\<close>

definition setImages :: "strategy \<Rightarrow> int list \<Rightarrow> int \<Rightarrow> error + strategy" where
  "setImages st dims nimages =
     (if length (s_splitsPerDim st) \<noteq> length dims then Inl ValueError
      else ebind (generateSlices (s_splitsPerDim st) dims) (\<lambda>slices.
             Inr (st\<lparr> s_slices := Some slices, s_dims := Some dims, s_nimages := Some nimages \<rparr>)))"

text \<open>\<^verbatim>\<open>extractBlockFromImage\<close>.\<close>

definition extractBlockFromImage ::
  "'a ndarray \<Rightarrow> slice list \<Rightarrow> int \<Rightarrow> int \<Rightarrow> error + (grouping_key \<times> 'a ndarray)"
where
  "extractBlockFromImage imgary blockslices timepoint numtimepoints =
     ebind (getitem blockslices imgary) (\<lambda>sub.
       Inr (\<lparr> origshape = numtimepoints # map int (shape imgary),
               origslices = Slice (Some timepoint) (Some (timepoint + 1)) (Some 1) # blockslices \<rparr>,
            expand_dims sub))"

text \<open>
  \<^verbatim>\<open>partitionFunction\<close>: \<open>itertools.product(*slices)\<close> is \<open>product_lists\<close>, the last
  dimension varying fastest. The method reads \<open>nimages\<close> and \<open>_slices\<close>, which
  \<^verbatim>\<open>setImages\<close> has set; unpacking \<open>None\<close> raises \<open>TypeError\<close>.
\<close>

definition partitionFunction ::
  "strategy \<Rightarrow> int \<times> 'a ndarray \<Rightarrow> error + (grouping_key \<times> 'a ndarray) list"
where
  "partitionFunction st timePointIdxAndImageArray =
     (case timePointIdxAndImageArray of (tpidx, imgary) \<Rightarrow>
        (case (s_nimages st, s_slices st) of
           (Some totnumimages, Some slices) \<Rightarrow>
             emap (\<lambda>blockslices. extractBlockFromImage imgary blockslices tpidx totnumimages)
               (product_lists slices)
         | _ \<Rightarrow> Inl TypeError))"

text \<open>
  \<^verbatim>\<open>blockingFunction\<close>. The loop carries \<open>ary\<close> and \<open>firstkey\<close>, both \<open>None\<close> at the
  start; \<open>[slice(None)] * (block.ndim - 1)\<close> is empty when \<open>block.ndim\<close> is 0. After the
  loop \<open>firstkey.origslices\<close> raises \<open>AttributeError\<close> when \<open>firstkey\<close> is still \<open>None\<close>.
\<close>

fun blocking_loop ::
  "(grouping_key \<times> 'a::zero ndarray) list \<Rightarrow> ('a ndarray \<times> grouping_key) option \<Rightarrow>
     error + ('a ndarray \<times> grouping_key) option"
where
  "blocking_loop [] acc = Inr acc"
| "blocking_loop ((key, block) # rest) acc =
     ebind (case acc of
              Some af \<Rightarrow> Inr af
            | None \<Rightarrow>
                ebind (py_index (origshape key) 0) (\<lambda>t.
                ebind (zeros (t # map int (tl (shape block)))) (\<lambda>ary. Inr (ary, key))))
       (\<lambda>(ary, firstkey).
          ebind (py_index (origslices key) 0) (\<lambda>tslice.
          ebind (setitem (tslice # replicate (ndim block - 1) slice_None) ary block) (\<lambda>ary'.
            blocking_loop rest (Some (ary', firstkey)))))"

definition blockingFunction ::
  "(grouping_key \<times> 'a::zero ndarray) list \<Rightarrow> error + (grouping_key \<times> 'a ndarray)"
where
  "blockingFunction partitionedSequence =
     ebind (blocking_loop partitionedSequence None) (\<lambda>acc.
       case acc of
         None \<Rightarrow> Inl AttributeError
       | Some (ary, firstkey) \<Rightarrow>
           Inr (\<lparr> origshape = origshape firstkey,
                   origslices = slice_None # tl (origslices firstkey) \<rparr>, ary))"

text \<open>
  \<open>xrange(start, stop, step)\<close> of Python 2: the three arguments are converted to a C
  \<open>long\<close>, taken to be of 64 bits, and one that does not fit raises \<open>OverflowError\<close>; a
  zero step raises \<open>ValueError\<close>; a range of more than \<open>2^63 - 1\<close> items raises
  \<open>OverflowError\<close>. The result is modelled by the list of its values.
\<close>

definition c_long :: "int \<Rightarrow> bool" where
  "c_long i \<longleftrightarrow> - (2 ^ 63) \<le> i \<and> i \<le> 2 ^ 63 - 1"

definition xrange :: "int \<Rightarrow> int \<Rightarrow> int \<Rightarrow> error + int list" where
  "xrange lo hi stp =
     (if \<not> (c_long lo \<and> c_long hi \<and> c_long stp) then Inl OverflowError
      else if stp = 0 then Inl ValueError
      else if 2 ^ 63 - 1 < range_len lo hi stp then Inl OverflowError
      else Inr (py_range lo hi stp))"

text \<open>
  \<^verbatim>\<open>_get_range_iterators\<close>: \<open>shape[sliceidx]\<close> is read only when the stop is \<open>None\<close>, and
  raises \<open>IndexError\<close> beyond the end of \<open>shape\<close>.
\<close>

fun range_iterators :: "nat \<Rightarrow> slice list \<Rightarrow> int list \<Rightarrow> error + int list list" where
  "range_iterators sliceidx [] shp = Inr []"
| "range_iterators sliceidx (sl # sls) shp =
     (let lo = (case start sl of None \<Rightarrow> 0 | Some b \<Rightarrow> b);
          stp = (case step sl of None \<Rightarrow> 1 | Some s \<Rightarrow> s)
      in ebind (case stop sl of None \<Rightarrow> py_index shp sliceidx | Some b \<Rightarrow> Inr b) (\<lambda>hi.
         ebind (xrange lo hi stp) (\<lambda>it.
         ebind (range_iterators (Suc sliceidx) sls shp) (\<lambda>rest. Inr (it # rest)))))"

definition get_range_iterators :: "slice list \<Rightarrow> int list \<Rightarrow> error + int list list" where
  "get_range_iterators slices shp = range_iterators 0 slices shp"

text \<open>
  The slices that \<^verbatim>\<open>toSeriesIter\<close> builds for one coordinate: \<open>None\<close> (the temporal
  axis) gives the full slice, an index gives the unit slice at the index minus the start
  of the original slice; \<open>idx - None\<close> raises \<open>TypeError\<close>.
\<close>

fun series_slices :: "int option list \<Rightarrow> slice list \<Rightarrow> error + slice list" where
  "series_slices (idx # idxs) (origslice # origslices') =
     ebind (case idx of
              None \<Rightarrow> Inr slice_None
            | Some i \<Rightarrow>
                (if origslice \<noteq> slice_None
                 then (case start origslice of
                         None \<Rightarrow> Inl TypeError
                       | Some s \<Rightarrow> Inr (Slice (Some (i - s)) (Some (i - s + 1)) (Some 1)))
                 else Inr (Slice (Some i) (Some (i + 1)) (Some 1))))
       (\<lambda>newslice. ebind (series_slices idxs origslices') (\<lambda>rest. Inr (newslice # rest)))"
| "series_slices _ _ = Inr []"

text \<open>
  \<^verbatim>\<open>toSeriesIter\<close>. The generator is modelled by the list of the pairs it yields, in
  order; \<open>del rangeiters[0]\<close> raises \<open>IndexError\<close> on an empty list. The slices are built
  and applied for the first coordinate before anything is yielded, and whether that
  raises does not depend on the coordinate.
\<close>

definition toSeriesIter ::
  "grouping_key \<Rightarrow> 'a ndarray \<Rightarrow> error + (int list \<times> 'a ndarray) list"
where
  "toSeriesIter partitioningkey ary =
     ebind (get_range_iterators (origslices partitioningkey) (origshape partitioningkey))
       (\<lambda>rangeiters.
         if rangeiters = [] then Inl IndexError
         else emap (\<lambda>idxSeq.
                ebind (series_slices (None # map Some (rev idxSeq)) (origslices partitioningkey))
                  (\<lambda>slices.
                ebind (getitem slices ary) (\<lambda>sub. Inr (rev idxSeq, squeeze sub))))
              (product_lists (rev (tl rangeiters))))"

text \<open>
  \<^verbatim>\<open>toBinarySeries\<close>, the function mapped over the records. \<open>struct.Struct('h' * n)\<close>
  packs \<open>n\<close> signed 16-bit integers in native byte order and alignment, two bytes each
  with nothing between them, and raises \<open>struct.error\<close> for a value outside
  \<open>[-32768, 32767]\<close>. A byte is a number below 256. The byte order of the machine and
  the bytes of one element (\<open>tostring()\<close> of the dtype) are parameters.
\<close>

definition pack_h :: "bool \<Rightarrow> int \<Rightarrow> error + nat list" where
  "pack_h big_endian k =
     (if k < - 32768 \<or> 32767 < k then Inl StructError
      else (let u = nat (k mod 65536)
            in Inr (if big_endian then [u div 256, u mod 256] else [u mod 256, u div 256])))"

definition keypacker_pack :: "bool \<Rightarrow> int list \<Rightarrow> error + nat list" where
  "keypacker_pack big_endian seriesKey =
     ebind (emap (pack_h big_endian) seriesKey) (\<lambda>bs. Inr (concat bs))"

definition tostring :: "('a \<Rightarrow> nat list) \<Rightarrow> 'a ndarray \<Rightarrow> nat list" where
  "tostring elem_bytes a = concat (map elem_bytes (elems a))"

fun write_series ::
  "bool \<Rightarrow> ('a \<Rightarrow> nat list) \<Rightarrow> (int list \<times> 'a ndarray) list \<Rightarrow> error + nat list"
where
  "write_series big_endian elem_bytes [] = Inr []"
| "write_series big_endian elem_bytes ((seriesKey, series) # rest) =
     ebind (keypacker_pack big_endian seriesKey) (\<lambda>kb.
     ebind (write_series big_endian elem_bytes rest) (\<lambda>buf.
       Inr (kb @ tostring elem_bytes series @ buf)))"

definition blockToBinarySeries ::
  "bool \<Rightarrow> ('a \<Rightarrow> nat list) \<Rightarrow> grouping_key \<times> 'a ndarray \<Rightarrow> error + (string \<times> nat list)"
where
  "blockToBinarySeries big_endian elem_bytes kv =
     (case kv of (blockKey, blockVal) \<Rightarrow>
        ebind (getBinarySeriesNameForKey (spatialKey blockKey)) (\<lambda>name.
        ebind (toSeriesIter blockKey blockVal) (\<lambda>items.
        ebind (write_series big_endian elem_bytes items) (\<lambda>val.
          Inr (name @ ''.bin'', val)))))"


section \<open>The record format of the specification\<close>

text \<open>
  The specification writes a coordinate as a signed 16-bit integer: two bytes in the
  byte order of the machine that hold the coordinate in two's complement.
  \<open>int16_bytes\<close> gives the two bytes and \<open>int16_value\<close> reads them back.
\<close>

definition int16_bytes :: "bool \<Rightarrow> int \<Rightarrow> nat list" where
  "int16_bytes big_endian c =
     (let u = nat (if c < 0 then c + 65536 else c)
      in if big_endian then [u div 256, u mod 256] else [u mod 256, u div 256])"

definition int16_value :: "bool \<Rightarrow> nat list \<Rightarrow> int" where
  "int16_value big_endian bs =
     (let u = (if big_endian then 256 * hd bs + hd (tl bs) else hd bs + 256 * hd (tl bs))
      in if u < 32768 then int u else int u - 65536)"

section \<open>Rows of the temporal assembler\<close>

text \<open>
  The body of the loop of \<^verbatim>\<open>blockingFunction\<close> once the collection array exists: the
  assignment of one block to the region of its temporal slice. And the rows that the
  temporal slice of a key selects among the \<open>origshape[0]\<close> rows of the collection
  array; a key without a temporal slice, or whose slice has a zero step, selects none.
  Both are used to state and prove properties of the assembler.
\<close>

definition assign_block :: "grouping_key \<times> 'a ndarray \<Rightarrow> 'a ndarray \<Rightarrow> error + 'a ndarray" where
  "assign_block kb ary =
     (case kb of (key, block) \<Rightarrow>
        ebind (py_index (origslices key) 0) (\<lambda>tslice.
          setitem (tslice # replicate (ndim block - 1) slice_None) ary block))"

definition temporal_rows :: "grouping_key \<Rightarrow> nat set" where
  "temporal_rows key =
     (case (origshape key, origslices key) of
        (t # _, tslice # _) \<Rightarrow>
          (case slice_select tslice (nat t) of Inl e \<Rightarrow> {} | Inr rows \<Rightarrow> set rows)
      | _ \<Rightarrow> {})"

section \<open>Split counts produced by \<open>indtosub\<close>\<close>

lemma indtosub_loop_length: "length (indtosub_loop ds idx) = length ds"
  by (induction ds arbitrary: idx) (auto simp: Let_def)

lemma indtosub_loop_bounds:
  "\<forall>d\<in>set ds. 1 \<le> d \<Longrightarrow> i < length ds \<Longrightarrow>
     1 \<le> indtosub_loop ds idx ! i \<and> indtosub_loop ds idx ! i \<le> ds ! i"
proof (induction ds arbitrary: idx i)
  case Nil
  then show ?case by simp
next
  case (Cons d ds)
  show ?case
  proof (cases i)
    case 0
    then show ?thesis using Cons.prems by (auto simp: Let_def)
  next
    case (Suc j)
    then show ?thesis using Cons.prems Cons.IH[of j] by (auto simp: Let_def)
  qed
qed

lemma indtosub_length: "length (indtosub dims idx) = length dims"
  by (simp add: indtosub_def indtosub_loop_length)

lemma indtosub_bounds:
  assumes "\<forall>d\<in>set dims. 1 \<le> d" and "i < length dims"
  shows "1 \<le> indtosub dims idx ! i \<and> indtosub dims idx ! i \<le> dims ! i"
proof -
  let ?j = "length dims - Suc i"
  have j: "?j < length (rev dims)" using assms(2) by simp
  have pos: "\<forall>d\<in>set (rev dims). 1 \<le> d" using assms(1) by simp
  have "indtosub dims idx ! i = indtosub_loop (rev dims) idx ! ?j"
    using assms(2) by (simp add: indtosub_def rev_nth indtosub_loop_length)
  moreover have "rev dims ! ?j = dims ! i"
    using assms(2) by (simp add: rev_nth)
  ultimately show ?thesis using indtosub_loop_bounds[OF pos j, of idx] by simp
qed

text \<open>
  Claim C9. For dimensions that are all positive and any non-negative index, also one
  at or beyond the length of the sequence, \<open>indtosub\<close> returns one split count per
  dimension, each between 1 and the size of its dimension: a valid SplitSpec.
\<close>

theorem indtosub_valid:
  assumes "\<forall>d\<in>set dims. 1 \<le> d" and "0 \<le> idx"
  shows "length (indtosub dims idx) = length dims \<and>
         (\<forall>i<length dims. 1 \<le> indtosub dims idx ! i \<and> indtosub dims idx ! i \<le> dims ! i)"
  using indtosub_length indtosub_bounds[OF assms(1)] by blast

theorem indtosub_valid_witness:
  "list_all (\<lambda>d. 1 \<le> d) [5, 10, 3 :: int] \<and> (0::int) \<le> 100 \<and> memseq_len [5, 10, 3] \<le> 100 \<and>
   length (indtosub [5, 10, 3] 100) = 3 \<and>
   list_all (\<lambda>i. 1 \<le> indtosub [5, 10, 3] 100 ! i \<and> indtosub [5, 10, 3] 100 ! i \<le> [5, 10, 3] ! i) [0, 1, 2]"
proof -
  have pos: "\<forall>d\<in>set [5, 10, 3 :: int]. 1 \<le> d" by simp
  have "length (indtosub [5, 10, 3] 100) = length [5, 10, 3 :: int] \<and>
        (\<forall>i<length [5, 10, 3 :: int].
           1 \<le> indtosub [5, 10, 3] 100 ! i \<and> indtosub [5, 10, 3] 100 ! i \<le> [5, 10, 3] ! i)"
    by (rule indtosub_valid[OF pos]) simp
  then have "length (indtosub [5, 10, 3] 100) = 3" and
    "\<And>i. i < 3 \<Longrightarrow>
        1 \<le> indtosub [5, 10, 3] 100 ! i \<and> indtosub [5, 10, 3] 100 ! i \<le> [5, 10, 3] ! i"
    by simp_all
  from this(1) this(2)[of 0] this(2)[of 1] this(2)[of 2] show ?thesis
    by (simp add: memseq_len_def)
qed

section \<open>Slice generation tiles every dimension evenly\<close>


lemma ebind_simps [simp]: "ebind (Inl e) f = Inl e" "ebind (Inr v) f = f v"
  by (simp_all add: ebind_def)
















section \<open>Rounding to a float\<close>

text \<open>
  Rounding to the nearest integer is monotone and odd; \<open>flog2\<close> is the binary exponent;
  rounding to a float is monotone, odd, and exact on the numbers \<open>m * 2^p\<close> with
  \<open>\<bar>m\<bar> < 2^53\<close>, in particular on the integers up to \<open>2^53\<close>. An integer of magnitude
  below \<open>2^1024 - 2^970\<close> converts to a float; products and quotients of floats that
  are at least 1 are monotone.
\<close>

lemma round_half_even_of_int: "round_half_even (of_int n) = n"
  by (simp add: round_half_even_def)

lemma round_half_even_range:
  "\<lfloor>x\<rfloor> \<le> round_half_even x \<and> round_half_even x \<le> \<lfloor>x\<rfloor> + 1"
  by (simp add: round_half_even_def Let_def)

lemma round_half_even_mono:
  assumes "x \<le> y"
  shows "round_half_even x \<le> round_half_even y"
proof (cases "\<lfloor>x\<rfloor> = \<lfloor>y\<rfloor>")
  case True
  then show ?thesis using assms by (auto simp: round_half_even_def Let_def)
next
  case False
  then have "\<lfloor>x\<rfloor> < \<lfloor>y\<rfloor>" using floor_mono[OF assms] by simp
  then show ?thesis using round_half_even_range[of x] round_half_even_range[of y] by linarith
qed

lemma round_half_even_minus: "round_half_even (- x) = - round_half_even x"
proof (cases "x = of_int \<lfloor>x\<rfloor>")
  case True
  then obtain n where "x = of_int n" ..
  then have "- x = of_int (- n)" by simp
  then show ?thesis unfolding \<open>x = of_int n\<close>
    by (simp only: round_half_even_of_int)
next
  case False
  have "\<lceil>x\<rceil> = \<lfloor>x\<rfloor> + 1" using False by (simp add: ceiling_altdef)
  then have f: "\<lfloor>- x\<rfloor> = - \<lfloor>x\<rfloor> - 1" by (simp add: ceiling_def)
  have r: "0 < x - of_int \<lfloor>x\<rfloor>" using False of_int_floor_le[of x] by linarith
  show ?thesis using r by (auto simp: round_half_even_def Let_def f)
qed

lemma two_powi_nonneg: "0 \<le> k \<Longrightarrow> (2::rat) powi k = of_int (2 ^ nat k)"
  by (simp add: power_int_def)

lemma two_powi_pos [simp]: "0 < (2::rat) powi k"
  by (simp add: zero_less_power_int)

lemma two_powi_less_cancel: "(2::rat) powi a < 2 powi b \<Longrightarrow> a < b"
proof (rule ccontr)
  assume "2 powi a < (2::rat) powi b" "\<not> a < b"
  then have "(2::rat) powi b \<le> 2 powi a" by (intro power_int_increasing) auto
  with \<open>2 powi a < (2::rat) powi b\<close> show False by simp
qed

lemma two_powi_mono: "a \<le> b \<Longrightarrow> (2::rat) powi a \<le> 2 powi b"
  by (intro power_int_increasing) auto

lemma two_powi_add: "(2::rat) powi (a + b) = 2 powi a * 2 powi b"
  by (simp add: power_int_add)

lemma two_powi_diff: "(2::rat) powi (a - b) = 2 powi a / 2 powi b"
  by (simp add: power_int_diff)

lemma bitlen_bounds_rat:
  assumes "0 < n"
  shows "(2::rat) powi (bitlen n - 1) \<le> of_int n" "of_int n < (2::rat) powi bitlen n"
proof -
  have b: "0 \<le> bitlen n - 1" using assms bitlen_eq_zero_iff[of n] bitlen_nonneg[of n] by linarith
  have "2 ^ nat (bitlen n - 1) \<le> n" "n < 2 ^ nat (bitlen n)"
    using bitlen_bounds[OF assms] by simp_all
  then have "(of_int (2 ^ nat (bitlen n - 1)) :: rat) \<le> of_int n"
    "(of_int n :: rat) < of_int (2 ^ nat (bitlen n))"
    by (simp_all only: of_int_le_iff of_int_less_iff)
  then show "(2::rat) powi (bitlen n - 1) \<le> of_int n" "of_int n < (2::rat) powi bitlen n"
    using b by (simp_all add: two_powi_nonneg)
qed

lemma flog2_bounds:
  assumes "0 < x"
  shows "2 powi flog2 x \<le> x \<and> x < 2 powi (flog2 x + 1)"
proof -
  obtain n d where q: "quotient_of x = (n, d)" by (cases "quotient_of x")
  have d: "0 < d" using quotient_of_denom_pos[OF q] .
  have x: "x = of_int n / of_int d" using quotient_of_div[OF q] .
  have n: "0 < n" using assms d x by (simp add: zero_less_divide_iff)
  define c where "c = bitlen n - bitlen d"
  have dr: "(0::rat) < of_int d" using d by simp
  have up: "(of_int n :: rat) < 2 powi (c + 1) * of_int d"
  proof -
    have "(of_int n :: rat) < 2 powi bitlen n" by (rule bitlen_bounds_rat[OF n])
    also have "\<dots> = 2 powi (c + 1) * 2 powi (bitlen d - 1)"
      unfolding two_powi_add[symmetric] c_def by simp
    also have "\<dots> \<le> 2 powi (c + 1) * of_int d"
      using bitlen_bounds_rat(1)[OF d] by (intro mult_left_mono) simp_all
    finally show ?thesis .
  qed
  have low: "2 powi (c - 1) * (of_int d :: rat) \<le> of_int n"
  proof -
    have "2 powi (c - 1) * (of_int d :: rat) \<le> 2 powi (c - 1) * 2 powi bitlen d"
      using bitlen_bounds_rat(2)[OF d] by (intro mult_left_mono) simp_all
    also have "\<dots> = 2 powi (bitlen n - 1)"
      unfolding two_powi_add[symmetric] c_def by simp
    also have "\<dots> \<le> of_int n" by (rule bitlen_bounds_rat[OF n])
    finally show ?thesis .
  qed
  show ?thesis
  proof (cases "of_int d * 2 powi c \<le> (of_int n :: rat)")
    case True
    then have "flog2 x = c" by (simp add: flog2_def q c_def Let_def)
    then show ?thesis using True up dr
      by (simp add: x pos_le_divide_eq pos_divide_less_eq mult.commute)
  next
    case False
    then have "flog2 x = c - 1" by (simp add: flog2_def q c_def Let_def)
    then show ?thesis using False low dr
      by (simp add: x pos_le_divide_eq pos_divide_less_eq mult.commute)
  qed
qed

lemma flog2_mono:
  assumes "0 < x" "x \<le> y"
  shows "flog2 x \<le> flog2 y"
proof -
  have "2 powi flog2 x \<le> x" using flog2_bounds[OF assms(1)] by simp
  also have "x \<le> y" by fact
  also have "y < 2 powi (flog2 y + 1)" using flog2_bounds[of y] assms by simp
  finally have "flog2 x < flog2 y + 1" by (rule two_powi_less_cancel)
  then show ?thesis by simp
qed

lemma flog2_less:
  assumes "0 < x" "x < 2 powi k"
  shows "flog2 x < k"
proof -
  have "2 powi flog2 x \<le> x" using flog2_bounds[OF assms(1)] by simp
  also have "x < 2 powi k" by fact
  finally show ?thesis by (rule two_powi_less_cancel)
qed

lemma ulp_exp_minus: "ulp_exp (- x) = ulp_exp x"
  by (simp add: ulp_exp_def)

lemma round_double_minus: "round_double (- x) = - round_double x"
  by (simp add: round_double_def ulp_exp_minus round_half_even_minus)

lemma round_double_nonneg:
  assumes "0 \<le> x"
  shows "0 \<le> round_double x"
proof -
  have "0 \<le> x / 2 powi ulp_exp x" using assms by simp
  from round_half_even_mono[OF this] have "0 \<le> round_half_even (x / 2 powi ulp_exp x)"
    using round_half_even_of_int[of 0] by simp
  then show ?thesis by (simp add: round_double_def)
qed

lemma round_double_le_pow:
  assumes "0 < x" "x \<le> 2 powi k" "ulp_exp x \<le> k"
  shows "round_double x \<le> 2 powi k"
proof -
  let ?u = "ulp_exp x"
  have "x / 2 powi ?u \<le> 2 powi k / 2 powi ?u"
    using assms(2) by (intro divide_right_mono) simp_all
  also have "\<dots> = of_int (2 ^ nat (k - ?u))"
    using assms(3) by (simp add: two_powi_diff[symmetric] two_powi_nonneg)
  finally have "round_half_even (x / 2 powi ?u) \<le> 2 ^ nat (k - ?u)"
    using round_half_even_mono[of "x / 2 powi ?u" "of_int (2 ^ nat (k - ?u))"]
    by (simp only: round_half_even_of_int)
  then have "(of_int (round_half_even (x / 2 powi ?u)) :: rat) \<le> of_int (2 ^ nat (k - ?u))"
    by (simp only: of_int_le_iff)
  then have "of_int (round_half_even (x / 2 powi ?u)) * 2 powi ?u
               \<le> (of_int (2 ^ nat (k - ?u)) :: rat) * 2 powi ?u"
    by (intro mult_right_mono) simp_all
  also have "\<dots> = 2 powi (k - ?u) * 2 powi ?u"
    using assms(3) by (simp add: two_powi_nonneg)
  also have "\<dots> = 2 powi k" unfolding two_powi_add[symmetric] by simp
  finally show ?thesis using assms(1) by (simp add: round_double_def)
qed

lemma round_double_ge_pow:
  assumes "2 powi k \<le> x" "ulp_exp x \<le> k"
  shows "2 powi k \<le> round_double x"
proof -
  let ?u = "ulp_exp x"
  have x: "0 < x" using assms(1) two_powi_pos[of k] by linarith
  have "(2::rat) powi k = 2 powi (k - ?u) * 2 powi ?u"
    unfolding two_powi_add[symmetric] by simp
  also have "\<dots> = (of_int (2 ^ nat (k - ?u)) :: rat) * 2 powi ?u"
    using assms(2) by (simp add: two_powi_nonneg)
  also have "\<dots> \<le> of_int (round_half_even (x / 2 powi ?u)) * 2 powi ?u"
  proof (intro mult_right_mono)
    have "(of_int (2 ^ nat (k - ?u)) :: rat) = 2 powi k / 2 powi ?u"
      using assms(2) by (simp add: two_powi_diff[symmetric] two_powi_nonneg)
    also have "\<dots> \<le> x / 2 powi ?u"
      using assms(1) by (intro divide_right_mono) simp_all
    finally have "2 ^ nat (k - ?u) \<le> round_half_even (x / 2 powi ?u)"
      using round_half_even_mono[of "of_int (2 ^ nat (k - ?u))" "x / 2 powi ?u"]
      by (simp only: round_half_even_of_int)
    then show "(of_int (2 ^ nat (k - ?u)) :: rat) \<le> of_int (round_half_even (x / 2 powi ?u))"
      by (simp only: of_int_le_iff)
  qed simp
  finally show ?thesis using x by (simp add: round_double_def)
qed

lemma round_double_mono_pos:
  assumes "0 < x" "x \<le> y"
  shows "round_double x \<le> round_double y"
proof (cases "ulp_exp x = ulp_exp y")
  case True
  have "x / 2 powi ulp_exp y \<le> y / 2 powi ulp_exp y"
    using assms(2) by (intro divide_right_mono) simp_all
  from round_half_even_mono[OF this]
  have "(of_int (round_half_even (x / 2 powi ulp_exp y)) :: rat)
          \<le> of_int (round_half_even (y / 2 powi ulp_exp y))"
    by (simp only: of_int_le_iff)
  then have "of_int (round_half_even (x / 2 powi ulp_exp y)) * 2 powi ulp_exp y
          \<le> (of_int (round_half_even (y / 2 powi ulp_exp y)) :: rat) * 2 powi ulp_exp y"
    by (intro mult_right_mono) simp_all
  then show ?thesis using assms True by (simp add: round_double_def)
next
  case False
  have y: "0 < y" using assms by simp
  have fl: "flog2 x \<le> flog2 y" by (rule flog2_mono[OF assms])
  have ax: "\<bar>x\<bar> = x" "\<bar>y\<bar> = y" using assms by simp_all
  have lt: "ulp_exp x < ulp_exp y" using False fl unfolding ulp_exp_def ax max_def
    by (simp split: if_splits)
  then have e: "flog2 x + 1 \<le> flog2 y" "ulp_exp y \<le> flog2 y" "ulp_exp x \<le> flog2 y"
    unfolding ulp_exp_def ax max_def by (simp_all split: if_splits)
  have "x < 2 powi (flog2 x + 1)" using flog2_bounds[OF assms(1)] by simp
  also have "\<dots> \<le> 2 powi flog2 y" by (rule two_powi_mono[OF e(1)])
  finally have "x \<le> 2 powi flog2 y" by simp
  then have "round_double x \<le> 2 powi flog2 y"
    by (rule round_double_le_pow[OF assms(1) _ e(3)])
  also have "\<dots> \<le> round_double y"
    using flog2_bounds[OF y] by (intro round_double_ge_pow e(2)) simp
  finally show ?thesis .
qed

lemma round_double_mono:
  assumes "x \<le> y"
  shows "round_double x \<le> round_double y"
proof -
  consider "0 < x" | "x \<le> 0" "0 \<le> y" | "y < 0" by linarith
  then show ?thesis
  proof cases
    case 1
    then show ?thesis using assms by (rule round_double_mono_pos)
  next
    case 2
    have "0 \<le> round_double (- x)" using 2(1) by (intro round_double_nonneg) simp
    then have "round_double x \<le> 0" by (simp add: round_double_minus)
    also have "0 \<le> round_double y" by (rule round_double_nonneg[OF 2(2)])
    finally show ?thesis .
  next
    case 3
    have "round_double (- y) \<le> round_double (- x)"
      using 3 assms by (intro round_double_mono_pos) simp_all
    then show ?thesis by (simp add: round_double_minus)
  qed
qed

lemma round_double_exact:
  assumes "\<bar>m\<bar> < 2 ^ 53" "- 1074 \<le> p"
  shows "round_double (of_int m * 2 powi p) = of_int m * 2 powi p"
proof (cases "m = 0")
  case True
  then show ?thesis by (simp add: round_double_def)
next
  case False
  let ?x = "(of_int m :: rat) * 2 powi p"
  let ?u = "ulp_exp ?x"
  have ax: "\<bar>?x\<bar> = of_int \<bar>m\<bar> * 2 powi p" by (simp add: abs_mult)
  have pos: "0 < \<bar>?x\<bar>" using False by simp
  have "(of_int \<bar>m\<bar> :: rat) < of_int (2 ^ 53)" using assms(1) by (simp only: of_int_less_iff)
  then have "(of_int \<bar>m\<bar> :: rat) < 2 powi 53" by (simp add: two_powi_nonneg)
  then have "\<bar>?x\<bar> < 2 powi 53 * 2 powi p" unfolding ax by (intro mult_strict_right_mono) simp_all
  then have "\<bar>?x\<bar> < 2 powi (53 + p)" by (simp only: two_powi_add)
  from flog2_less[OF pos this] have u: "?u \<le> p" using assms(2) by (simp add: ulp_exp_def)
  have "?x / 2 powi ?u = of_int m * 2 powi (p - ?u)" by (simp add: two_powi_diff)
  also have "\<dots> = of_int (m * 2 ^ nat (p - ?u))" using u by (simp add: two_powi_nonneg)
  finally have "round_half_even (?x / 2 powi ?u) = m * 2 ^ nat (p - ?u)"
    by (simp only: round_half_even_of_int)
  then have "round_double ?x = of_int (m * 2 ^ nat (p - ?u)) * 2 powi ?u"
    using False by (simp add: round_double_def)
  also have "\<dots> = of_int m * (2 powi (p - ?u) * 2 powi ?u)"
    using u by (simp add: two_powi_nonneg)
  also have "\<dots> = ?x" unfolding two_powi_add[symmetric] by simp
  finally show ?thesis .
qed

lemma round_double_pow: "- 1074 \<le> k \<Longrightarrow> round_double (2 powi k) = 2 powi k"
  using round_double_exact[of 1 k] by simp

lemma round_double_of_int:
  assumes "\<bar>i\<bar> \<le> 2 ^ 53"
  shows "round_double (of_int i) = of_int i"
proof -
  consider "\<bar>i\<bar> < 2 ^ 53" | "i = 2 ^ 53" | "i = - (2 ^ 53)" using assms by linarith
  then show ?thesis
  proof cases
    case 1
    then show ?thesis using round_double_exact[of i 0] by simp
  next
    case 2
    have "round_double (2 powi 53) = 2 powi 53" by (rule round_double_pow) simp
    then show ?thesis unfolding 2 by (simp add: two_powi_nonneg)
  next
    case 3
    have "round_double (2 powi 53) = 2 powi 53" by (rule round_double_pow) simp
    then have "round_double (- (2 powi 53)) = - (2 powi 53)" by (simp only: round_double_minus)
    then show ?thesis unfolding 3 by (simp add: two_powi_nonneg)
  qed
qed

lemma flog2_eq:
  assumes "0 < x" "2 powi e \<le> x" "x < 2 powi (e + 1)"
  shows "flog2 x = e"
proof -
  have "flog2 x < e + 1" by (rule flog2_less[OF assms(1,3)])
  moreover have "2 powi e < (2::rat) powi (flog2 x + 1)"
    using assms(2) flog2_bounds[OF assms(1)] by linarith
  then have "e < flog2 x + 1" by (rule two_powi_less_cancel)
  ultimately show ?thesis by simp
qed

lemma round_half_even_less:
  assumes "x < of_int n - 1 / 2"
  shows "round_half_even x < n"
proof -
  have "x < of_int n" using assms by linarith
  then have f: "\<lfloor>x\<rfloor> < n" by (simp add: floor_less_iff)
  show ?thesis
  proof (cases "x - of_int \<lfloor>x\<rfloor> < 1 / 2")
    case True
    then show ?thesis using f by (simp add: round_half_even_def Let_def)
  next
    case False
    then have "of_int \<lfloor>x\<rfloor> + 1 / 2 < (of_int n :: rat) - 1 / 2" using assms by linarith
    then have "(of_int (\<lfloor>x\<rfloor> + 1) :: rat) < of_int n" by simp
    then have "\<lfloor>x\<rfloor> + 1 < n" by (simp only: of_int_less_iff)
    then show ?thesis using round_half_even_range[of x] by linarith
  qed
qed

lemma round_double_less_max_pos:
  assumes "0 \<le> x" "x < 2 powi 1024 - 2 powi 970"
  shows "round_double x < 2 powi 1024"
proof (cases "x < 2 powi 1023")
  case True
  then have "round_double x \<le> round_double (2 powi 1023)" by (intro round_double_mono) simp
  also have "\<dots> = 2 powi 1023" by (rule round_double_pow) simp
  also have "\<dots> < 2 powi 1024" by (intro power_int_strict_increasing) simp_all
  finally show ?thesis .
next
  case False
  then have lo: "2 powi 1023 \<le> x" by simp
  have x: "0 < x" using lo two_powi_pos[of 1023] by linarith
  have "x < 2 powi 1024" using assms(2) two_powi_pos[of 970] by linarith
  then have "flog2 x = 1023" using lo by (intro flog2_eq[OF x]) simp_all
  then have u: "ulp_exp x = 971" using x by (simp add: ulp_exp_def)
  have "x / 2 powi 971 < (2 powi 1024 - 2 powi 970) / 2 powi 971"
    using assms(2) by (intro divide_strict_right_mono) simp_all
  also have "\<dots> = 2 powi (1024 - 971) - 2 powi (970 - 971)"
    unfolding two_powi_diff by (simp add: diff_divide_distrib)
  also have "\<dots> = of_int (2 ^ 53) - 1 / 2" by (simp add: power_int_def)
  finally have "round_half_even (x / 2 powi 971) < 2 ^ 53" by (rule round_half_even_less)
  then have "round_half_even (x / 2 powi 971) \<le> 2 ^ 53 - 1" by simp
  then have "(of_int (round_half_even (x / 2 powi 971)) :: rat) \<le> of_int (2 ^ 53 - 1)"
    by (simp only: of_int_le_iff)
  then have "of_int (round_half_even (x / 2 powi 971)) * 2 powi 971
               \<le> (of_int (2 ^ 53 - 1) :: rat) * 2 powi 971"
    by (intro mult_right_mono) simp_all
  also have "\<dots> = 2 powi (53 + 971) - 2 powi 971"
    unfolding two_powi_add by (simp add: two_powi_nonneg algebra_simps)
  also have "\<dots> < 2 powi 1024" using two_powi_pos[of 971] by simp
  finally show ?thesis using x u by (simp add: round_double_def)
qed

lemma round_double_less_max:
  assumes "\<bar>x\<bar> < 2 powi 1024 - 2 powi 970"
  shows "\<bar>round_double x\<bar> < 2 powi 1024"
proof (cases "0 \<le> x")
  case True
  then have "x < 2 powi 1024 - 2 powi 970" using assms by linarith
  from round_double_less_max_pos[OF True this] round_double_nonneg[OF True]
  show ?thesis by linarith
next
  case False
  then have n: "0 \<le> - x" "- x < 2 powi 1024 - 2 powi 970" using assms by linarith+
  from round_double_less_max_pos[OF n] round_double_nonneg[OF n(1)]
  have "round_double (- x) < 2 powi 1024" "0 \<le> round_double (- x)" .
  then show ?thesis unfolding round_double_minus by linarith
qed

lemma float_of_int_Inr:
  assumes "\<bar>i\<bar> < 2 ^ 1024 - 2 ^ 970"
  shows "float_of_int i = Inr (round_double (of_int i))"
proof -
  have "(of_int \<bar>i\<bar> :: rat) < of_int (2 ^ 1024 - 2 ^ 970)"
    using assms by (simp only: of_int_less_iff)
  then have "\<bar>of_int i :: rat\<bar> < 2 powi 1024 - 2 powi 970"
    by (simp add: two_powi_nonneg)
  from round_double_less_max[OF this] show ?thesis
    by (simp add: float_of_int_def Let_def)
qed


lemma to_double_cases:
  "to_double x = PInf \<and> 2 powi 1024 \<le> round_double x \<or>
   to_double x = NInf \<and> round_double x \<le> - (2 powi 1024) \<or>
   to_double x = Fin (round_double x) \<and> - (2 powi 1024) < round_double x \<and>
     round_double x < 2 powi 1024"
  by (simp add: to_double_def Let_def)




lemma dle_not_NaN: "dle a b \<Longrightarrow> a \<noteq> NaN \<and> b \<noteq> NaN"
  by (cases a; cases b) simp_all


lemma dle_refl: "a \<noteq> NaN \<Longrightarrow> dle a a"
  by (cases a) simp_all







lemma to_double_exact:
  assumes "\<bar>m\<bar> < 2 ^ 53" "- 1074 \<le> p" "p \<le> 971"
  shows "to_double (of_int m * 2 powi p) = Fin (of_int m * 2 powi p)"
proof -
  let ?x = "(of_int m :: rat) * 2 powi p"
  have rd: "round_double ?x = ?x" by (rule round_double_exact[OF assms(1,2)])
  have "(of_int \<bar>m\<bar> :: rat) < of_int (2 ^ 53)" using assms(1) by (simp only: of_int_less_iff)
  then have m: "(of_int \<bar>m\<bar> :: rat) < 2 powi 53" by (simp add: two_powi_nonneg)
  have "\<bar>?x\<bar> = of_int \<bar>m\<bar> * 2 powi p" by (simp add: abs_mult)
  also have "\<dots> \<le> of_int \<bar>m\<bar> * 2 powi 971"
    using assms(3) by (intro mult_left_mono two_powi_mono) simp_all
  also have "\<dots> < 2 powi 53 * 2 powi 971"
    using m by (intro mult_strict_right_mono) simp_all
  also have "\<dots> = 2 powi 1024" unfolding two_powi_add[symmetric] by simp
  finally have "\<bar>?x\<bar> < 2 powi 1024" .
  then have "\<not> 2 powi 1024 \<le> ?x" "\<not> ?x \<le> - (2 powi 1024)" by linarith+
  then show ?thesis unfolding to_double_def rd Let_def by (simp only: if_False)
qed

lemma to_double_of_int: "\<bar>i\<bar> < 2 ^ 53 \<Longrightarrow> to_double (of_int i) = Fin (of_int i)"
  using to_double_exact[of i 0] by simp

lemma to_double_le_Fin:
  assumes "0 \<le> x" "x \<le> c" "to_double c = Fin c"
  shows "\<exists>y. to_double x = Fin y \<and> 0 \<le> y \<and> y \<le> c"
proof -
  have c: "round_double c = c" "c < 2 powi 1024"
    using to_double_cases[of c] assms(3) by auto
  have "round_double x \<le> c" using round_double_mono[OF assms(2)] c(1) by simp
  moreover have "0 \<le> round_double x" by (rule round_double_nonneg[OF assms(1)])
  moreover have "- (2 powi 1024) < (0::rat)" by simp
  ultimately have "\<not> 2 powi 1024 \<le> round_double x" "\<not> round_double x \<le> - (2 powi 1024)"
    using c(2) by linarith+
  then have "to_double x = Fin (round_double x)" by (simp add: to_double_def Let_def)
  then show ?thesis using \<open>round_double x \<le> c\<close> \<open>0 \<le> round_double x\<close> by simp
qed

lemma float_of_int_small:
  assumes "\<bar>i\<bar> \<le> 2 ^ 53"
  shows "float_of_int i = Inr (of_int i)"
proof -
  have "\<bar>i\<bar> < 2 ^ 1024 - 2 ^ 970" using assms by simp
  then show ?thesis using round_double_of_int[OF assms] by (simp add: float_of_int_Inr)
qed

lemma int_div_float_small:
  assumes "\<bar>d\<bar> \<le> 2 ^ 53" "\<bar>s\<bar> \<le> 2 ^ 53" "s \<noteq> 0"
  shows "int_div_float d s = Inr (to_double (of_int d / of_int s))"
  using assms(3) by (simp add: int_div_float_def float_of_int_small[OF assms(1)]
      float_of_int_small[OF assms(2)])


lemma round_double_eval:
  assumes "2 powi e \<le> x" "x < 2 powi (e + 1)" "u = max (e - 52) (- 1074)"
    "round_half_even (x / 2 powi u) = n"
  shows "round_double x = of_int n * 2 powi u"
proof -
  have x: "0 < x" using assms(1) two_powi_pos[of e] by linarith
  have "flog2 x = e" by (rule flog2_eq[OF x assms(1,2)])
  then have "ulp_exp x = u" using x assms(3) by (simp add: ulp_exp_def)
  then show ?thesis using x assms(4) by (simp add: round_double_def)
qed

lemma round_half_even_near:
  assumes "of_int n - 1 / 2 < x" "x < of_int n + 1 / 2"
  shows "round_half_even x = n"
proof (cases "of_int n \<le> x")
  case True
  then have "\<lfloor>x\<rfloor> = n" using assms(2) by (intro floor_unique) linarith+
  then show ?thesis using assms(2) by (simp add: round_half_even_def Let_def)
next
  case False
  then have "\<lfloor>x\<rfloor> = n - 1" using assms(1) by (intro floor_unique) simp_all
  then show ?thesis using assms(1) by (simp add: round_half_even_def Let_def)
qed

lemma round_half_even_tie:
  assumes "x = of_int n - 1 / 2" "even n"
  shows "round_half_even x = n"
proof -
  have "\<lfloor>x\<rfloor> = n - 1" unfolding assms(1) by (intro floor_unique) simp_all
  then show ?thesis using assms by (simp add: round_half_even_def Let_def)
qed


section \<open>The estimator on the documented example\<close>

text \<open>
  The items of the reversed sequence for \<open>dims = (5, 10, 3)\<close> that the binary search
  visits: one of them, \<open>5.0 * (10 / 6.0) * 1.0\<close>, is not exact and is bounded by
  \<open>35 / 4\<close>; the others are exact.
\<close>

lemma to_double_examples:
  "to_double 1 = Fin 1" "to_double 2 = Fin 2" "to_double 5 = Fin 5" "to_double 10 = Fin 10"
  "to_double 25 = Fin 25" "to_double 50 = Fin 50" "to_double 75 = Fin 75"
  "to_double (3 / 2) = Fin (3 / 2)" "to_double (5 / 2) = Fin (5 / 2)"
  "to_double (25 / 2) = Fin (25 / 2)" "to_double (7 / 4) = Fin (7 / 4)"
  "to_double (35 / 4) = Fin (35 / 4)"
  using to_double_of_int[of 1] to_double_of_int[of 2] to_double_of_int[of 5]
    to_double_of_int[of 10] to_double_of_int[of 25] to_double_of_int[of 50]
    to_double_of_int[of 75] to_double_exact[of 3 "- 1"] to_double_exact[of 5 "- 1"]
    to_double_exact[of 25 "- 1"] to_double_exact[of 7 "- 2"] to_double_exact[of 35 "- 2"]
  by (simp_all add: power_int_def power2_eq_square)

lemma quotient_examples:
  "int_div_float 5 1 = Inr (Fin 5)" "int_div_float 10 1 = Inr (Fin 10)"
  "int_div_float 10 2 = Inr (Fin 5)" "int_div_float 10 4 = Inr (Fin (5 / 2))"
  "int_div_float 10 5 = Inr (Fin 2)" "int_div_float 10 6 = Inr (to_double (5 / 3))"
  "int_div_float 3 2 = Inr (Fin (3 / 2))" "int_div_float 3 3 = Inr (Fin 1)"
  using int_div_float_small[of 5 1] int_div_float_small[of 10 1] int_div_float_small[of 10 2]
    int_div_float_small[of 10 4] int_div_float_small[of 10 5] int_div_float_small[of 10 6]
    int_div_float_small[of 3 2] int_div_float_small[of 3 3]
  by (simp_all add: to_double_examples)

lemma indtosub_examples:
  "indtosub [5, 10, 3] 7 = [1, 6, 3]" "indtosub [5, 10, 3] 3 = [1, 2, 3]"
  "indtosub [5, 10, 3] 1 = [1, 1, 2]" "indtosub [5, 10, 3] 2 = [1, 1, 3]"
  "indtosub [5, 10, 3] 5 = [1, 4, 3]" "indtosub [5, 10, 3] 6 = [1, 5, 3]"
  by (simp_all add: indtosub_def Let_def)

lemma memseq_len_example: "memseq_len [5, 10, 3] = 16"
  by (simp add: memseq_len_def)

lemma memseq_getitem_examples:
  "\<exists>w. memseq_getitem [5, 10, 3] 8 = Inr (Fin w) \<and> w \<le> 35 / 4"
  "memseq_getitem [5, 10, 3] 12 = Inr (Fin 25)"
  "memseq_getitem [5, 10, 3] 14 = Inr (Fin 75)"
  "memseq_getitem [5, 10, 3] 13 = Inr (Fin 50)"
  "memseq_getitem [5, 10, 3] 10 = Inr (Fin (25 / 2))"
  "memseq_getitem [5, 10, 3] 9 = Inr (Fin 10)"
proof -
  obtain y where y: "to_double (5 / 3) = Fin y" "0 \<le> y" "y \<le> 7 / 4"
    using to_double_le_Fin[of "5 / 3" "7 / 4"] by (auto simp: to_double_examples)
  then obtain z where z: "to_double (5 * y) = Fin z" "0 \<le> z" "z \<le> 35 / 4"
    using to_double_le_Fin[of "5 * y" "35 / 4"] by (auto simp: to_double_examples)
  then obtain w where w: "to_double z = Fin w" "0 \<le> w" "w \<le> 35 / 4"
    using to_double_le_Fin[of z "35 / 4"] by (auto simp: to_double_examples)
  have "memseq_getitem [5, 10, 3] 8 = Inr (Fin w)"
    by (simp add: memseq_getitem_def rev_indtosub_def reverseIdx_def memseq_len_example
        indtosub_examples blockMemoryForSplits_def quotient_examples y z w)
  then show "\<exists>w. memseq_getitem [5, 10, 3] 8 = Inr (Fin w) \<and> w \<le> 35 / 4"
    using w(3) by blast
qed (simp_all add: memseq_getitem_def rev_indtosub_def reverseIdx_def memseq_len_example
        indtosub_examples blockMemoryForSplits_def quotient_examples to_double_examples)

lemma bisect_example_50: "bisect_left (memseq_getitem [5, 10, 3]) 16 (Fin 50) = Inr 13"
proof -
  obtain w where w: "memseq_getitem [5, 10, 3] 8 = Inr (Fin w)" "w \<le> 35 / 4"
    using memseq_getitem_examples(1) by blast
  then have "w < 50" by simp
  then show ?thesis
    by (simp add: bisect_left_def bisect_loop.simps w(1) memseq_getitem_examples(2-))
qed


lemma rev_indtosub_examples:
  "rev_indtosub [5, 10, 3] 13 = Inr [1, 1, 3]" "rev_indtosub [5, 10, 3] 9 = Inr [1, 5, 3]"
  "rev_indtosub [5, 10, 3] 14 = Inr [1, 1, 2]"
  by (simp_all add: rev_indtosub_def reverseIdx_def memseq_len_example indtosub_examples)

lemma new_strategy_None:
  "\<forall>s\<in>set splits. 0 < s \<Longrightarrow>
    new_strategy splits None = Inr \<lparr> s_splitsPerDim = splits, s_slices = None,
      s_npartitions = foldl (*) 1 splits, s_dims = None, s_nimages = None \<rparr>"
  by (auto simp: new_strategy_def normalizeSplits_def)

lemma new_strategy_example:
  "\<exists>st. new_strategy [1, 1, 3] numSparkPartitions = Inr st \<and> s_splitsPerDim st = [1, 1, 3]"
  by (simp add: new_strategy_def normalizeSplits_def)


text \<open>
  Claim C4. For \<open>dims = (5, 10, 3)\<close> and a target of exactly \<open>50 * nimages * itemsize\<close>
  bytes, the bytes of the series of one full z-plane (50 cells), the estimator returns a
  strategy whose split counts are \<open>(1, 1, 3)\<close>, provided that the target is at most
  \<open>2^53\<close>: then the target and the series size convert to floats exactly and the
  threshold of the search is exactly \<open>50.0\<close>.
\<close>

theorem estimate_one_plane:
  assumes "0 < nimages" and "0 < itemsize" and "50 * nimages * itemsize \<le> 2 ^ 53"
  shows "\<exists>st. generateFromBlockSize parseMemoryString (SizeInt (50 * nimages * itemsize))
                [5, 10, 3] nimages itemsize numSparkPartitions = Inr st \<and>
              s_splitsPerDim st = [1, 1, 3]"
proof -
  define N where "N = nimages * itemsize"
  have e: "50 * nimages * itemsize = 50 * N" by (simp add: N_def)
  have pos: "0 < N" unfolding N_def using assms(1,2) by simp
  have le: "50 * N \<le> 2 ^ 53" using assms(3) unfolding e .
  have b: "\<bar>50 * N\<bar> \<le> 2 ^ 53" "\<bar>N\<bar> \<le> 2 ^ 53" "N \<noteq> 0"
    using pos le by linarith+
  have "(of_int (50 * N) :: rat) / of_int N = 50" using b(3) by simp
  then have "int_div_float (50 * N) N = Inr (Fin 50)"
    using int_div_float_small[OF b] by (simp only: to_double_examples)
  then have "int_div_float (50 * nimages * itemsize) (nimages * itemsize) = Inr (Fin 50)"
    unfolding e N_def .
  then show ?thesis
    using new_strategy_example[of numSparkPartitions]
    by (simp add: generateFromBlockSize_def bisect_example_50 memseq_len_example
        rev_indtosub_examples)
qed

theorem estimate_one_plane_witness:
  "(0::int) < 7 \<and> (0::int) < 4 \<and> (50::int) * 7 * 4 \<le> 2 ^ 53 \<and>
   (\<exists>st. generateFromBlockSize (\<lambda>s. Inl ValueError) (SizeInt 1400) [5, 10, 3] 7 4 None = Inr st \<and>
         s_splitsPerDim st = [1, 1, 3])"
  using estimate_one_plane[of 7 4 "\<lambda>s. Inl ValueError" None] by simp

text \<open>
  Beyond \<open>2^53\<close> the conversion of the target rounds. For 360287970189643 timepoints of
  one byte the target 18014398509482150 converts to 18014398509482152.0, the threshold
  is the float next above \<open>50.0\<close>, the item \<open>50.0\<close> of the split counts \<open>(1, 1, 3)\<close> is
  below it, and the estimator returns \<open>(1, 1, 2)\<close>.
\<close>

lemma float_of_int_large_example:
  "float_of_int 18014398509482150 = Inr 18014398509482152"
proof -
  have "round_double 18014398509482150 = of_int 4503599627370538 * 2 powi 2"
  proof (rule round_double_eval[where e = 54])
    show "round_half_even (18014398509482150 / 2 powi 2) = 4503599627370538"
      by (rule round_half_even_tie) (simp_all add: power_int_def)
  qed (simp_all add: power_int_def)
  then have "round_double 18014398509482150 = 18014398509482152" by (simp add: power_int_def)
  then show ?thesis by (simp add: float_of_int_def Let_def power_int_def)
qed

lemma threshold_large_example:
  "int_div_float 18014398509482150 360287970189643
     = Inr (Fin (7036874417766401 / 140737488355328))"
proof -
  let ?q = "18014398509482152 / 360287970189643 :: rat"
  have p: "(2::rat) powi (- 47) = 1 / 140737488355328"
    by (simp add: power_int_def power_divide)
  have "round_double ?q = of_int 7036874417766401 * 2 powi (- 47)"
  proof (rule round_double_eval[where e = 5])
    show "round_half_even (?q / 2 powi (- 47)) = 7036874417766401"
      unfolding p by (rule round_half_even_near) simp_all
  qed (simp_all add: power_int_def)
  then have "round_double ?q = 7036874417766401 / 140737488355328"
    unfolding p by simp
  then have "to_double ?q = Fin (7036874417766401 / 140737488355328)"
    by (simp add: to_double_def Let_def power_int_def)
  then show ?thesis
    using float_of_int_small[of 360287970189643]
    by (simp add: int_div_float_def float_of_int_large_example)
qed

lemma bisect_example_large:
  "bisect_left (memseq_getitem [5, 10, 3]) 16 (Fin (7036874417766401 / 140737488355328)) = Inr 14"
proof -
  obtain w where w: "memseq_getitem [5, 10, 3] 8 = Inr (Fin w)" "w \<le> 35 / 4"
    using memseq_getitem_examples(1) by blast
  then have "w < 7036874417766401 / 140737488355328" by simp
  then show ?thesis
    by (simp add: bisect_left_def bisect_loop.simps w(1) memseq_getitem_examples(2-))
qed

theorem estimate_one_plane_large:
  "generateFromBlockSize (\<lambda>s. Inl ValueError) (SizeInt (50 * 360287970189643 * 1)) [5, 10, 3]
     360287970189643 1 None
   = Inr \<lparr> s_splitsPerDim = [1, 1, 2], s_slices = None, s_npartitions = 2,
           s_dims = None, s_nimages = None \<rparr>"
  by (simp add: generateFromBlockSize_def threshold_large_example bisect_example_large
      memseq_len_example rev_indtosub_examples new_strategy_None)


section \<open>The estimator is monotone in its target\<close>

























text \<open>
  An integer that does not convert to a float ends the call: with the target \<open>2^1024\<close>
  the division that computes the threshold raises \<open>OverflowError\<close>.
\<close>

lemma float_of_int_overflow_example: "float_of_int (2 ^ 1024) = Inl OverflowError"
proof -
  have "round_double (2 powi 1024) = 2 powi 1024" by (rule round_double_pow) simp
  then have "round_double (of_int (2 ^ 1024)) = 2 powi 1024" by (simp add: two_powi_nonneg)
  then show ?thesis unfolding float_of_int_def Let_def by simp
qed

lemma estimator_target_overflow:
  "generateFromBlockSize (\<lambda>s. Inl ValueError) (SizeInt (2 ^ 1024)) [5, 10, 3] 7 4 None
     = Inl OverflowError"
  using float_of_int_small[of 28] float_of_int_overflow_example
  by (simp add: generateFromBlockSize_def int_div_float_def)

section \<open>The label of a block\<close>


lemma zero_padded_Suc:
  "zero_padded (Suc w) n = zero_padded w (n div 10) @ [digit_char (n mod 10)]"
proof -
  have "[0..<Suc w] = 0 # map Suc [0..<w]"
    by (simp add: upt_conv_Cons map_Suc_upt del: upt_Suc)
  then show ?thesis
    by (simp add: zero_padded_def rev_map div_mult2_eq o_def del: upt_Suc)
qed

lemma zero_padded_small: "n < 10 \<Longrightarrow> zero_padded w n = replicate (w - 1) (CHR ''0'') @ (if w = 0 then [] else [digit_char n])"
proof (induction w)
  case 0
  then show ?case by (simp add: zero_padded_def)
next
  case (Suc w)
  have "zero_padded w 0 = replicate w (CHR ''0'')"
    by (induction w) (simp_all add: zero_padded_def digit_char_def replicate_append_same)
  then show ?case using Suc.prems by (simp add: zero_padded_Suc)
qed

lemma str_nat_length: "n < 10 ^ w \<Longrightarrow> 0 < w \<Longrightarrow> length (str_nat n) \<le> w"
proof (induction w arbitrary: n)
  case 0
  then show ?case by simp
next
  case (Suc w)
  show ?case
  proof (cases "n < 10")
    case True
    then show ?thesis by (subst str_nat.simps) simp
  next
    case False
    then have "n div 10 < 10 ^ w" "0 < w" using Suc.prems by (auto simp: less_mult_imp_div_less mult.commute intro!: Suc_lessI gr0I)
    then have "length (str_nat (n div 10)) \<le> w" by (rule Suc.IH)
    then show ?thesis using False by (subst str_nat.simps) simp
  qed
qed

lemma zero_fill_str_nat:
  "n < 10 ^ w \<Longrightarrow> 0 < w \<Longrightarrow> zero_fill w [] (str_nat n) = zero_padded w n"
proof (induction w arbitrary: n)
  case 0
  then show ?case by simp
next
  case (Suc w)
  show ?case
  proof (cases "n < 10")
    case True
    then show ?thesis
      by (subst str_nat.simps) (simp add: zero_fill_def zero_padded_small)
  next
    case False
    then have d: "n div 10 < 10 ^ w" "0 < w" using Suc.prems by (auto simp: less_mult_imp_div_less mult.commute intro!: Suc_lessI gr0I)
    then have "zero_fill w [] (str_nat (n div 10)) = zero_padded w (n div 10)" by (rule Suc.IH)
    then show ?thesis using False
      by (subst str_nat.simps) (simp add: zero_fill_def zero_padded_Suc)
  qed
qed


lemma fmt_0d_index: "i < 100 \<Longrightarrow> fmt_0d 2 (int i) = zero_padded 2 i"
  using zero_fill_str_nat[of i 2] by (simp add: fmt_0d_def)

lemma fmt_05g_coordinate:
  assumes "0 \<le> k" "k < 100000"
  shows "fmt_05g k = zero_padded 5 (nat k)"
proof -
  have n: "nat k < 10 ^ 5" using assms by simp
  then have "length (str_nat (nat k)) \<le> 5" by (rule str_nat_length) simp
  then have "fmt_g_abs (nat k) = str_nat (nat k)" by (simp add: fmt_g_abs_def Let_def)
  then show ?thesis using assms zero_fill_str_nat[OF n] by (simp add: fmt_05g_def)
qed

lemma format_keys_Some:
  "format_keys ki (map Some key) =
     Inr (map (\<lambda>j. ''key'' @ fmt_0d 2 (int (ki + j)) @ ''_'' @ fmt_05g (key ! j)) [0..<length key])"
proof (induction key arbitrary: ki)
  case Nil
  then show ?case by simp
next
  case (Cons k key)
  have "[0..<length (k # key)] = 0 # map Suc [0..<length key]"
    by (simp add: upt_conv_Cons map_Suc_upt del: upt_Suc)
  then show ?case using Cons.IH[of "Suc ki"] by (simp add: o_def add_ac del: upt_Suc)
qed

text \<open>
  Claim C6. For a block key whose coordinates are non-negative integers below 100000
  (and of at most 100 entries, so that the index has two digits; an array has far fewer
  dimensions), the label is the list of components in reversed order, joined by \<open>-\<close>: the
  component of position \<open>i\<close> is \<open>key\<close>, the index \<open>i\<close> in two digits, an underscore and the
  coordinate in five digits, so the rightmost dimension comes first with the highest
  index. The key \<open>(0, 5, 10)\<close> gives \<open>key02_00010-key01_00005-key00_00000\<close>.
\<close>

theorem label_format:
  assumes "\<forall>k\<in>set key. 0 \<le> k \<and> k < 100000" and "length key \<le> 100"
  shows "getBinarySeriesNameForKey (map Some key) =
           Inr (join ''-'' (rev (map (\<lambda>i. label_component i (nat (key ! i))) [0..<length key]))) \<and>
         getBinarySeriesNameForKey [Some 0, Some 5, Some 10] =
           Inr ''key02_00010-key01_00005-key00_00000''"
proof
  have eq: "map (\<lambda>j. ''key'' @ fmt_0d 2 (int (0 + j)) @ ''_'' @ fmt_05g (key ! j)) [0..<length key] =
        map (\<lambda>i. label_component i (nat (key ! i))) [0..<length key]"
  proof (rule map_cong[OF refl])
    fix i assume "i \<in> set [0..<length key]"
    then have i: "i < length key" by simp
    then have "i < 100" "0 \<le> key ! i" "key ! i < 100000" using assms by auto
    then show "''key'' @ fmt_0d 2 (int (0 + i)) @ ''_'' @ fmt_05g (key ! i) =
               label_component i (nat (key ! i))"
      by (simp add: label_component_def fmt_0d_index fmt_05g_coordinate)
  qed
  show "getBinarySeriesNameForKey (map Some key) =
           Inr (join ''-'' (rev (map (\<lambda>i. label_component i (nat (key ! i))) [0..<length key])))"
    unfolding getBinarySeriesNameForKey_def format_keys_Some eq by simp
  have r: "\<And>x::char. replicate 3 x = [x, x, x]" "\<And>x::char. replicate 4 x = [x, x, x, x]"
    by (simp_all add: numeral_eq_Suc)
  show "getBinarySeriesNameForKey [Some 0, Some 5, Some 10] =
           Inr ''key02_00010-key01_00005-key00_00000''"
    by (simp add: r getBinarySeriesNameForKey_def fmt_0d_def fmt_05g_def fmt_g_abs_def
        zero_fill_def str_nat.simps digit_char_def Let_def)
qed

theorem label_format_witness:
  "list_all (\<lambda>k. 0 \<le> k \<and> k < 100000) [3, 99999 :: int] \<and> length [3, 99999 :: int] \<le> 100 \<and>
   getBinarySeriesNameForKey [Some 3, Some 99999] = Inr ''key01_99999-key00_00003''"
proof -
  have h: "\<forall>k\<in>set [3, 99999 :: int]. 0 \<le> k \<and> k < 100000" by simp
  have e: "join ''-'' (rev (map (\<lambda>i. label_component i (nat ([3, 99999 :: int] ! i))) [0..<length [3, 99999 :: int]]))
        = ''key01_99999-key00_00003''"
    by (simp add: label_component_def zero_padded_def digit_char_def upt_rec)
  from label_format[OF h] e show ?thesis by simp
qed

section \<open>Binary records\<close>

lemma pack_h_int16:
  assumes "- 32768 \<le> c" "c \<le> 32767"
  shows "pack_h be c = Inr (int16_bytes be c)"
proof -
  have "c mod 65536 = (if c < 0 then c + 65536 else c)"
  proof (cases "c < 0")
    case True
    have "c mod 65536 = (c + 65536) mod 65536" by simp
    also have "\<dots> = c + 65536" using True assms by (intro mod_pos_pos_trivial) simp_all
    finally show ?thesis using True by simp
  next
    case False
    then show ?thesis using assms by simp
  qed
  then show ?thesis using assms by (simp add: pack_h_def int16_bytes_def Let_def)
qed

lemma pack_h_error: "c < - 32768 \<or> 32767 < c \<Longrightarrow> pack_h be c = Inl StructError"
  by (auto simp: pack_h_def)

lemma emap_pack_h:
  "emap (pack_h be) k =
     (if \<forall>c\<in>set k. - 32768 \<le> c \<and> c \<le> 32767 then Inr (map (int16_bytes be) k)
      else Inl StructError)"
proof (induction k)
  case Nil
  then show ?case by simp
next
  case (Cons c k)
  show ?case
  proof (cases "- 32768 \<le> c \<and> c \<le> 32767")
    case True
    then show ?thesis using Cons by (simp add: pack_h_int16)
  next
    case False
    then have "pack_h be c = Inl StructError" by (intro pack_h_error) linarith
    then show ?thesis using False by auto
  qed
qed

lemma keypacker_pack_int16:
  "keypacker_pack be k =
     (if \<forall>c\<in>set k. - 32768 \<le> c \<and> c \<le> 32767 then Inr (concat (map (int16_bytes be) k))
      else Inl StructError)"
  by (simp add: keypacker_pack_def emap_pack_h)

lemma write_series_records:
  "write_series be eb items =
     (if \<forall>(k, s)\<in>set items. \<forall>c\<in>set k. - 32768 \<le> c \<and> c \<le> 32767
      then Inr (concat (map (\<lambda>(k, s). concat (map (int16_bytes be) k) @ tostring eb s) items))
      else Inl StructError)"
proof (induction items)
  case Nil
  then show ?case by simp
next
  case (Cons item items)
  obtain k s where item: "item = (k, s)" by (cases item)
  show ?case unfolding item using Cons
    by (simp add: keypacker_pack_int16)
qed

lemma int16_roundtrip:
  assumes "- 32768 \<le> c" "c \<le> 32767"
  shows "length (int16_bytes be c) = 2 \<and> (\<forall>b\<in>set (int16_bytes be c). b < 256) \<and>
         int16_value be (int16_bytes be c) = c"
proof -
  define u where "u = nat (if c < 0 then c + 65536 else c)"
  have u: "u < 65536" "int u = (if c < 0 then c + 65536 else c)" using assms by (auto simp: u_def)
  have d: "u div 256 < 256" using u(1) by simp
  have r: "256 * (u div 256) + u mod 256 = u" "u mod 256 + 256 * (u div 256) = u" by simp_all
  show ?thesis
    using u d r assms unfolding int16_bytes_def int16_value_def Let_def u_def[symmetric]
    by (auto split: if_splits)
qed

lemma series_example:
  "toSeriesIter \<lparr> origshape = [2, 3], origslices = [slice_None, Slice (Some 1) (Some 3) (Some 1)] \<rparr>
     (NDArray [2, 2] [1, 2, 3, 4 :: nat])
   = Inr [([1], NDArray [2] [1, 3]), ([2], NDArray [2] [2, 4])]"
  by code_simp

lemma series_example_large:
  "toSeriesIter \<lparr> origshape = [1, 40001],
       origslices = [slice_None, Slice (Some 40000) (Some 40001) (Some 1)] \<rparr>
     (NDArray [1, 1] [7 :: nat])
   = Inr [([40000], NDArray [] [7])]"
  by code_simp

lemma name_examples:
  "getBinarySeriesNameForKey [Some 1] = Inr ''key00_00001''"
  "getBinarySeriesNameForKey [Some 40000] = Inr ''key00_40000''"
proof -
  have r: "\<And>x::char. replicate 3 x = [x, x, x]" "\<And>x::char. replicate 4 x = [x, x, x, x]"
    by (simp_all add: numeral_eq_Suc)
  show "getBinarySeriesNameForKey [Some 1] = Inr ''key00_00001''"
    "getBinarySeriesNameForKey [Some 40000] = Inr ''key00_40000''"
    by (simp_all add: r getBinarySeriesNameForKey_def fmt_0d_def fmt_05g_def fmt_g_abs_def
        zero_fill_def str_nat.simps digit_char_def Let_def)
qed

text \<open>
  Claim C7. For a block whose label is formed and whose series are enumerated, the
  serialization raises \<open>struct.error\<close> when a coordinate of a yielded series lies outside
  \<open>[-32768, 32767]\<close>; otherwise it returns the label with \<open>.bin\<close> appended and the
  concatenation, in the order of the enumeration, of one record per series: every
  coordinate as a signed 16-bit integer (two bytes that read back as the coordinate),
  immediately followed by the bytes of the series, with nothing before, between or after.
  The code has no \<open>ValidationError\<close>: the error is the one that \<open>struct.Struct.pack\<close>
  raises.
\<close>

theorem toBinarySeries_records:
  assumes "getBinarySeriesNameForKey (spatialKey blockKey) = Inr name"
    and "toSeriesIter blockKey blockVal = Inr items"
  shows "blockToBinarySeries be eb (blockKey, blockVal) =
           (if \<forall>(k, s)\<in>set items. \<forall>c\<in>set k. - 32768 \<le> c \<and> c \<le> 32767
            then Inr (name @ ''.bin'',
                      concat (map (\<lambda>(k, s). concat (map (int16_bytes be) k) @ tostring eb s) items))
            else Inl StructError) \<and>
         (\<forall>c. - 32768 \<le> c \<and> c \<le> 32767 \<longrightarrow>
            length (int16_bytes be c) = 2 \<and> (\<forall>b\<in>set (int16_bytes be c). b < 256) \<and>
            int16_value be (int16_bytes be c) = c)"
proof
  show "blockToBinarySeries be eb (blockKey, blockVal) =
           (if \<forall>(k, s)\<in>set items. \<forall>c\<in>set k. - 32768 \<le> c \<and> c \<le> 32767
            then Inr (name @ ''.bin'',
                      concat (map (\<lambda>(k, s). concat (map (int16_bytes be) k) @ tostring eb s) items))
            else Inl StructError)"
    using assms by (simp add: blockToBinarySeries_def write_series_records)
  show "\<forall>c. - 32768 \<le> c \<and> c \<le> 32767 \<longrightarrow>
            length (int16_bytes be c) = 2 \<and> (\<forall>b\<in>set (int16_bytes be c). b < 256) \<and>
            int16_value be (int16_bytes be c) = c"
    using int16_roundtrip[of _ be] by blast
qed

theorem toBinarySeries_records_witness:
  "getBinarySeriesNameForKey
     (spatialKey \<lparr> origshape = [2, 3], origslices = [slice_None, Slice (Some 1) (Some 3) (Some 1)] \<rparr>)
     = Inr ''key00_00001'' \<and>
   toSeriesIter \<lparr> origshape = [2, 3], origslices = [slice_None, Slice (Some 1) (Some 3) (Some 1)] \<rparr>
     (NDArray [2, 2] [1, 2, 3, 4 :: nat])
     = Inr [([1], NDArray [2] [1, 3]), ([2], NDArray [2] [2, 4])] \<and>
   blockToBinarySeries False (\<lambda>x. [x])
     (\<lparr> origshape = [2, 3], origslices = [slice_None, Slice (Some 1) (Some 3) (Some 1)] \<rparr>,
      NDArray [2, 2] [1, 2, 3, 4 :: nat])
     = Inr (''key00_00001.bin'', [1, 0, 1, 3, 2, 0, 2, 4]) \<and>
   int16_value False (int16_bytes False (- 2)) = - 2"
proof -
  let ?K = "\<lparr> origshape = [2, 3], origslices = [slice_None, Slice (Some 1) (Some 3) (Some 1)] \<rparr>"
  have n: "getBinarySeriesNameForKey (spatialKey ?K) = Inr ''key00_00001''"
    by (simp add: spatialKey_def name_examples)
  note t = toBinarySeries_records[OF n series_example, of False "\<lambda>x. [x]"]
  from t have a: "blockToBinarySeries False (\<lambda>x. [x]) (?K, NDArray [2, 2] [1, 2, 3, 4 :: nat])
     = Inr (''key00_00001.bin'', [1, 0, 1, 3, 2, 0, 2, 4])"
    by (simp add: int16_bytes_def tostring_def)
  from t have "- 32768 \<le> (- 2 :: int) \<and> (- 2 :: int) \<le> 32767 \<longrightarrow>
      length (int16_bytes False (- 2)) = 2 \<and> (\<forall>b\<in>set (int16_bytes False (- 2)). b < 256) \<and>
      int16_value False (int16_bytes False (- 2)) = - 2"
    by blast
  then have b: "int16_value False (int16_bytes False (- 2)) = - 2" by simp
  show ?thesis by (intro conjI n series_example a b)
qed

text \<open>
  A block of one cell at the coordinate 40000: the serialization raises \<open>struct.error\<close>.
\<close>

theorem toBinarySeries_struct_error:
  "blockToBinarySeries False (\<lambda>x. [x])
     (\<lparr> origshape = [1, 40001],
         origslices = [slice_None, Slice (Some 40000) (Some 40001) (Some 1)] \<rparr>,
      NDArray [1, 1] [7 :: nat])
   = Inl StructError"
  using series_example_large name_examples(2)
  by (simp add: blockToBinarySeries_def spatialKey_def write_series_records)

section \<open>The temporal assembler\<close>

text \<open>
  Claim C8. Applied to an empty group, \<open>blockingFunction\<close> raises \<open>AttributeError\<close>: the
  loop leaves \<open>firstkey\<close> at \<open>None\<close> and the statement after the loop reads
  \<open>firstkey.origslices\<close>. The code has no \<open>ValidationError\<close> and no check of the group.
\<close>

theorem blockingFunction_empty: "blockingFunction [] = Inl AttributeError"
  by (simp add: blockingFunction_def)

text \<open>The error of the empty group is not a \<open>ValidationError\<close>.\<close>

theorem blockingFunction_empty_not_ValidationError:
  "blockingFunction ([] :: (grouping_key \<times> int ndarray) list) \<noteq> Inl ValidationError"
  by (simp add: blockingFunction_def)

end
